theory Spec2Isabelle
  imports Main "HOL-Library.Char_ord" "HOL-Library.List_Lexorder" "HOL-Library.AList"
begin

section \<open>Text and characters\<close>

text \<open>
  File text, symbol names and file paths are JavaScript strings. They are modelled as
  lists of code units below 256 (\<^typ>\<open>string\<close>). The pattern class \<open>\s\<close> and
  \<open>String.prototype.trim\<close> agree on which of these code units are white space: tab, line
  feed, vertical tab, form feed, carriage return, space and the no-break space. The class
  \<open>\w\<close> is \<open>[A-Za-z0-9_]\<close>.
\<close>

definition isSpace :: "char \<Rightarrow> bool" where
  "isSpace c = ((of_char c :: nat) \<in> {9, 10, 11, 12, 13, 32, 160})"

definition isWord :: "char \<Rightarrow> bool" where
  "isWord c = (let n = (of_char c :: nat) in
     (65 \<le> n \<and> n \<le> 90) \<or> (97 \<le> n \<and> n \<le> 122) \<or> (48 \<le> n \<and> n \<le> 57) \<or> n = 95)"

definition trim :: "string \<Rightarrow> string" where
  "trim s = rev (dropWhile isSpace (rev (dropWhile isSpace s)))"

text \<open>\<open>s.split(sep)\<close> for a non-empty separator: the pieces between the occurrences of
  \<open>sep\<close>, found from the left; there is always at least one piece.\<close>

fun splitAcc :: "string \<Rightarrow> string \<Rightarrow> string \<Rightarrow> string list" where
  "splitAcc sep acc [] = [rev acc]"
| "splitAcc [] acc (c # cs) = splitAcc [] (c # acc) cs"
| "splitAcc (x # xs) acc (c # cs) =
     (if take (Suc (length xs)) (c # cs) = x # xs
      then rev acc # splitAcc (x # xs) [] (drop (length xs) cs)
      else splitAcc (x # xs) (c # acc) cs)"

definition split :: "string \<Rightarrow> string \<Rightarrow> string list" where
  "split sep s = splitAcc sep [] s"

text \<open>\<open>xs[0]\<close> of the result of a \<open>split\<close>.\<close>

definition first :: "string list \<Rightarrow> string" where
  "first xs = (case xs of [] \<Rightarrow> [] | x # _ \<Rightarrow> x)"

definition startsWith :: "string \<Rightarrow> string \<Rightarrow> bool" where
  "startsWith s w = (take (length w) s = w)"

section \<open>Regular expressions\<close>

text \<open>
  The patterns of the program use literals, character classes, greedy and lazy
  repetition of a single class, alternation, one capture group, a negative look-ahead,
  a negative look-behind of one character and the word boundary \<open>\b\<close>. The matcher
  below is the backtracking matcher of JavaScript for these constructs: a match attempt
  at one position yields its successes in the order in which backtracking finds them,
  each with the number of code units consumed and the text of capture group 1.
\<close>

datatype citem = Ch char | Rg char char | WordC | SpaceC

fun inItem :: "citem \<Rightarrow> char \<Rightarrow> bool" where
  "inItem (Ch x) c = (c = x)"
| "inItem (Rg a b) c = ((of_char a :: nat) \<le> of_char c \<and> (of_char c :: nat) \<le> of_char b)"
| "inItem WordC c = isWord c"
| "inItem SpaceC c = isSpace c"

datatype cclass = In "citem list" | NotIn "citem list"

fun inClass :: "cclass \<Rightarrow> char \<Rightarrow> bool" where
  "inClass (In its) c = list_ex (\<lambda>i. inItem i c) its"
| "inClass (NotIn its) c = (\<not> list_ex (\<lambda>i. inItem i c) its)"

datatype regex =
    Lit string
  | Cls cclass
  | Many cclass
  | Many1 cclass
  | ManyLazy cclass
  | Seq regex regex
  | Alt regex regex
  | Group regex
  | NotAhead regex
  | NotBehind cclass
  | WordB

text \<open>The character before the position reached after consuming \<open>n\<close> code units of
  \<open>s\<close>, where \<open>p\<close> is the character before \<open>s\<close> (if any).\<close>

definition prevAt :: "char option \<Rightarrow> string \<Rightarrow> nat \<Rightarrow> char option" where
  "prevAt p s n = (case rev (take n s) of [] \<Rightarrow> p | c # _ \<Rightarrow> Some c)"

definition runLen :: "cclass \<Rightarrow> string \<Rightarrow> nat" where
  "runLen k s = length (takeWhile (inClass k) s)"

definition isWordOpt :: "char option \<Rightarrow> bool" where
  "isWordOpt p = (case p of None \<Rightarrow> False | Some c \<Rightarrow> isWord c)"

primrec rmatch :: "regex \<Rightarrow> char option \<Rightarrow> string \<Rightarrow> (nat \<times> string option) list" where
  "rmatch (Lit w) p s = (if take (length w) s = w then [(length w, None)] else [])"
| "rmatch (Cls k) p s =
     (case s of [] \<Rightarrow> [] | c # _ \<Rightarrow> if inClass k c then [(1, None)] else [])"
| "rmatch (Many k) p s = map (\<lambda>n. (n, None)) (rev [0 ..< Suc (runLen k s)])"
| "rmatch (Many1 k) p s = map (\<lambda>n. (n, None)) (rev [1 ..< Suc (runLen k s)])"
| "rmatch (ManyLazy k) p s = map (\<lambda>n. (n, None)) [0 ..< Suc (runLen k s)]"
| "rmatch (Seq a b) p s =
     concat (map (\<lambda>(n, g). map (\<lambda>(m, h). (n + m, case h of None \<Rightarrow> g | Some t \<Rightarrow> Some t))
                               (rmatch b (prevAt p s n) (drop n s)))
                 (rmatch a p s))"
| "rmatch (Alt a b) p s = rmatch a p s @ rmatch b p s"
| "rmatch (Group a) p s = map (\<lambda>(n, g). (n, Some (take n s))) (rmatch a p s)"
| "rmatch (NotAhead a) p s = (if rmatch a p s = [] then [(0, None)] else [])"
| "rmatch (NotBehind k) p s =
     (case p of None \<Rightarrow> [(0, None)] | Some c \<Rightarrow> if inClass k c then [] else [(0, None)])"
| "rmatch WordB p s =
     (if isWordOpt p \<noteq> isWordOpt (case s of [] \<Rightarrow> None | c # _ \<Rightarrow> Some c)
      then [(0, None)] else [])"

definition cat :: "regex list \<Rightarrow> regex" where
  "cat rs = foldr Seq rs (Lit [])"

text \<open>
  \<open>pattern.exec(content)\<close> from a position: the leftmost position at or after it where
  an attempt succeeds, with the first success there. The result is the offset of the
  match, its length and capture group 1.
\<close>

fun exec :: "regex \<Rightarrow> char option \<Rightarrow> string \<Rightarrow> (nat \<times> nat \<times> string option) option" where
  "exec r p [] = (case rmatch r p [] of [] \<Rightarrow> None | (n, g) # _ \<Rightarrow> Some (0, n, g))"
| "exec r p (c # cs) =
     (case rmatch r p (c # cs) of
        (n, g) # _ \<Rightarrow> Some (0, n, g)
      | [] \<Rightarrow> (case exec r (Some c) cs of
                 None \<Rightarrow> None
               | Some (i, n, g) \<Rightarrow> Some (Suc i, n, g)))"

lemma rmatch_le: "(n, g) \<in> set (rmatch r p s) \<Longrightarrow> n \<le> length s"
proof (induction r arbitrary: n g p s)
  case (Lit w)
  then have "take (length w) s = w" and "n = length w" by (auto split: if_splits)
  then have "length (take (length w) s) = n" by simp
  then show ?case by simp
next
  case (Cls k)
  then show ?case by (auto split: list.splits if_splits)
next
  case (Many k)
  then show ?case
    using length_takeWhile_le [of "inClass k" s] by (auto simp: runLen_def)
next
  case (Many1 k)
  then show ?case
    using length_takeWhile_le [of "inClass k" s] by (auto simp: runLen_def)
next
  case (ManyLazy k)
  then show ?case
    using length_takeWhile_le [of "inClass k" s] by (auto simp: runLen_def)
next
  case (Seq a b)
  from Seq.prems obtain n1 g1 n2 g2 where
    a: "(n1, g1) \<in> set (rmatch a p s)" and
    b: "(n2, g2) \<in> set (rmatch b (prevAt p s n1) (drop n1 s))" and
    n: "n = n1 + n2"
    by auto
  from Seq.IH(1) [OF a] Seq.IH(2) [OF b] n show ?case by simp
next
  case (Alt a b)
  then show ?case by auto
next
  case (Group a)
  then show ?case by auto
next
  case (NotAhead a)
  then show ?case by (auto split: if_splits)
next
  case (NotBehind k)
  then show ?case by (auto split: option.splits if_splits)
next
  case WordB
  then show ?case by (auto split: if_splits)
qed

lemma exec_le: "exec r p s = Some (i, n, g) \<Longrightarrow> i + n \<le> length s"
proof (induction r p s arbitrary: i n g rule: exec.induct)
  case (1 r p)
  then obtain xs where "rmatch r p [] = (n, g) # xs" and "i = 0"
    by (auto split: list.splits)
  then have "(n, g) \<in> set (rmatch r p [])" by simp
  from rmatch_le [OF this] \<open>i = 0\<close> show ?case by simp
next
  case (2 r p c cs)
  show ?case
  proof (cases "rmatch r p (c # cs)")
    case Nil
    with 2 show ?thesis by (auto split: option.splits)
  next
    case (Cons x xs)
    with 2 have x: "x = (n, g)" and "i = 0" by (auto split: prod.splits)
    from Cons x have "(n, g) \<in> set (rmatch r p (c # cs))" by simp
    from rmatch_le [OF this] \<open>i = 0\<close> show ?thesis by simp
  qed
qed

text \<open>
  The loop \<open>while ((match = pattern.exec(content)) !== null)\<close> of a pattern with the
  \<open>g\<close> flag: each call searches from the end of the previous match. A match of
  length 0 leaves \<open>lastIndex\<close> where it is, so the loop then finds the same match for
  ever: the value \<open>None\<close>. Otherwise the loop ends, and its matches are listed in order,
  each with its start, its length and capture group 1.
\<close>

function execAll :: "regex \<Rightarrow> char option \<Rightarrow> string \<Rightarrow> (nat \<times> nat \<times> string option) list option" where
  "execAll r p s =
     (case exec r p s of
        None \<Rightarrow> Some []
      | Some (i, n, g) \<Rightarrow>
          if n = 0 then None
          else (case execAll r (prevAt p s (i + n)) (drop (i + n) s) of
                  None \<Rightarrow> None
                | Some ms \<Rightarrow> Some ((i, n, g) # map (\<lambda>(j, m, h). (i + n + j, m, h)) ms)))"
  by pat_completeness auto
termination
proof (relation "measure (\<lambda>(r, p, s). length s)")
  show "wf (measure (\<lambda>(r, p, s). length s))" by simp
next
  fix r :: regex and p :: "char option" and s :: string and x2 i y n g
  assume "exec r p s = Some x2" "(i, y) = x2" "(n, g) = y" "n \<noteq> 0"
  then have "exec r p s = Some (i, n, g)" by simp
  from exec_le [OF this] \<open>n \<noteq> 0\<close>
  show "((r, prevAt p s (i + n), drop (i + n) s), r, p, s) \<in> measure (\<lambda>(r, p, s). length s)"
    by simp
qed

declare execAll.simps [simp del]


section \<open>The configuration and the import patterns\<close>

definition targetPackageName :: string where
  "targetPackageName = ''your-package-name''"

definition space :: cclass where
  "space = In [SpaceC]"

definition quote :: cclass where
  "quote = In [Ch (CHR 0x27), Ch (CHR 0x22)]"

text \<open>\<^verbatim>\<open>from\s+['"]your-package-name['"]\<close>\<close>

definition fromTarget :: "regex list" where
  "fromTarget = [Lit ''from'', Many1 space, Cls quote, Lit targetPackageName, Cls quote]"

text \<open>\<^verbatim>\<open>=\s+require\s*\(\s*['"]your-package-name['"]\s*\)\<close>\<close>

definition requireTarget :: "regex list" where
  "requireTarget = [Lit ''='', Many1 space, Lit ''require'', Many space, Lit ''('', Many space,
     Cls quote, Lit targetPackageName, Cls quote, Many space, Lit '')'']"

definition declKeyword :: regex where
  "declKeyword = Alt (Lit ''const'') (Alt (Lit ''let'') (Lit ''var''))"

text \<open>\<^verbatim>\<open>import\s+{([^}]*)}\s+from\s+['"]your-package-name['"]\<close>\<close>

definition namedImportPattern :: regex where
  "namedImportPattern =
     cat ([Lit ''import'', Many1 space, Lit ''{'', Group (Many (NotIn [Ch (CHR ''}'')])),
           Lit ''}'', Many1 space] @ fromTarget)"

text \<open>\<^verbatim>\<open>import\s+([^{\s]+)\s+from\s+['"]your-package-name['"]\<close>\<close>

definition defaultImportPattern :: regex where
  "defaultImportPattern =
     cat ([Lit ''import'', Many1 space, Group (Many1 (NotIn [Ch (CHR ''{''), SpaceC])),
           Many1 space] @ fromTarget)"

text \<open>\<^verbatim>\<open>import\s+\*\s+as\s+([^\s]+)\s+from\s+['"]your-package-name['"]\<close>\<close>

definition namespaceImportPattern :: regex where
  "namespaceImportPattern =
     cat ([Lit ''import'', Many1 space, Lit ''*'', Many1 space, Lit ''as'', Many1 space,
           Group (Many1 (NotIn [SpaceC])), Many1 space] @ fromTarget)"

text \<open>\<^verbatim>\<open>(?:const|let|var)\s+{([^}]*)}\s+=\s+require\s*\(\s*['"]your-package-name['"]\s*\)\<close>\<close>

definition requirePattern :: regex where
  "requirePattern =
     cat ([declKeyword, Many1 space, Lit ''{'', Group (Many (NotIn [Ch (CHR ''}'')])),
           Lit ''}'', Many1 space] @ requireTarget)"

text \<open>\<^verbatim>\<open>(?:const|let|var)\s+([^{\s]+)\s+=\s+require\s*\(\s*['"]your-package-name['"]\s*\)\<close>\<close>

definition requireDefaultPattern :: regex where
  "requireDefaultPattern =
     cat ([declKeyword, Many1 space, Group (Many1 (NotIn [Ch (CHR ''{''), SpaceC])),
           Many1 space] @ requireTarget)"

section \<open>The tables\<close>

text \<open>
  \<open>componentUsage\<close>, \<open>componentInstancesJSX\<close> and \<open>componentInstancesFunc\<close> are object
  literals used as dictionaries. An object keeps its own properties in the order of
  their creation, which an association list records; a \<open>Set\<close> of file paths keeps its
  members in the order of insertion, a duplicate-free list.

  A property read \<open>obj[key]\<close> also finds what the object inherits from
  \<open>Object.prototype\<close>. Each inherited value is a function or an object, hence truthy, and
  has neither an \<open>add\<close> nor a \<open>push\<close> method.
\<close>

type_synonym 'a obj = "(string \<times> 'a) list"

definition objectPrototypeKeys :: "string list" where
  "objectPrototypeKeys = [''constructor'', ''__defineGetter__'', ''__defineSetter__'',
     ''hasOwnProperty'', ''__lookupGetter__'', ''__lookupSetter__'', ''isPrototypeOf'',
     ''propertyIsEnumerable'', ''toString'', ''valueOf'', ''__proto__'', ''toLocaleString'']"

datatype 'a property = Own 'a | Inherited | Undefined

definition getProp :: "'a obj \<Rightarrow> string \<Rightarrow> 'a property" where
  "getProp t k =
     (case map_of t k of
        Some v \<Rightarrow> Own v
      | None \<Rightarrow> if k \<in> set objectPrototypeKeys then Inherited else Undefined)"

definition setAdd :: "string \<Rightarrow> string list \<Rightarrow> string list" where
  "setAdd f fs = (if f \<in> set fs then fs else fs @ [f])"

text \<open>How a block of statements ends: normally, or by a thrown \<open>TypeError\<close>; either way
  with the table as the statements left it.\<close>

datatype 'a completion = Normal 'a | Thrown 'a

text \<open>
  \<^verbatim>\<open>if (!componentUsage[component]) { componentUsage[component] = new Set(); }
  componentUsage[component].add(filePath);\<close>
\<close>

definition addImport :: "string \<Rightarrow> string list obj \<Rightarrow> string \<Rightarrow> string list obj completion" where
  "addImport filePath cu component =
     (case getProp cu component of
        Undefined \<Rightarrow> Normal (AList.update component [filePath] cu)
      | Own fs \<Rightarrow> Normal (AList.update component (setAdd filePath fs) cu)
      | Inherited \<Rightarrow> Thrown cu)"

text \<open>A loop over a list whose body may throw.\<close>

fun foldC :: "('s \<Rightarrow> 'a \<Rightarrow> 's completion) \<Rightarrow> 's \<Rightarrow> 'a list \<Rightarrow> 's completion" where
  "foldC body st [] = Normal st"
| "foldC body st (x # xs) =
     (case body st x of Normal st' \<Rightarrow> foldC body st' xs | Thrown st' \<Rightarrow> Thrown st')"

text \<open>
  \<^verbatim>\<open>while ((match = pattern.exec(content)) !== null) { body }\<close>, where the body reads
  \<open>match[1]\<close>. The pattern and the text do not change during the loop, so the loop
  visits the matches of \<^const>\<open>execAll\<close> in order. \<open>lastIndex\<close> is 0 when the loop starts:
  it is reset before the loops, and a loop that ends leaves it at 0.
\<close>

definition whileExec ::
  "regex \<Rightarrow> string \<Rightarrow> ('s \<Rightarrow> string option \<Rightarrow> 's completion) \<Rightarrow> 's \<Rightarrow> 's completion option" where
  "whileExec r content body st =
     (case execAll r None content of
        None \<Rightarrow> None
      | Some ms \<Rightarrow> Some (foldC body st (map (\<lambda>(i, n, g). g) ms)))"

text \<open>Statements in sequence: what follows a block runs when the block ends normally.\<close>

definition thenC :: "'s completion option \<Rightarrow> ('s \<Rightarrow> 's completion option) \<Rightarrow> 's completion option" where
  "thenC m f = (case m of None \<Rightarrow> None | Some (Thrown s) \<Rightarrow> Some (Thrown s) | Some (Normal s) \<Rightarrow> f s)"

section \<open>findImports\<close>

text \<open>\<^verbatim>\<open>match[1].split(",").map((s) => s.trim().split(" as ")[0].trim())\<close>\<close>

definition namedComponents :: "string \<Rightarrow> string list" where
  "namedComponents g = map (\<lambda>s. trim (first (split '' as '' (trim s)))) (split '','' g)"

text \<open>\<^verbatim>\<open>match[1].split(",").map((s) => s.trim().split(" as ")[0].split(":")[0].trim())\<close>\<close>

definition requireComponents :: "string \<Rightarrow> string list" where
  "requireComponents g =
     map (\<lambda>s. trim (first (split '':'' (first (split '' as '' (trim s)))))) (split '','' g)"

text \<open>The bodies of the five loops. Reading \<open>match[1]\<close> of a match whose group did not
  take part gives \<open>undefined\<close>, and calling a method of it throws.\<close>

definition namedBody :: "string \<Rightarrow> string list obj \<Rightarrow> string option \<Rightarrow> string list obj completion" where
  "namedBody filePath cu g =
     (case g of None \<Rightarrow> Thrown cu
      | Some t \<Rightarrow> foldC (addImport filePath) cu (namedComponents t))"

definition defaultBody :: "string \<Rightarrow> string list obj \<Rightarrow> string option \<Rightarrow> string list obj completion" where
  "defaultBody filePath cu g =
     (case g of None \<Rightarrow> Thrown cu
      | Some t \<Rightarrow>
          (let defaultComponent = trim t in
           if defaultComponent \<noteq> targetPackageName
           then addImport filePath cu defaultComponent
           else Normal cu))"

definition namespaceBody :: "string \<Rightarrow> string list obj \<Rightarrow> string option \<Rightarrow> string list obj completion" where
  "namespaceBody filePath cu g =
     (case g of None \<Rightarrow> Thrown cu
      | Some t \<Rightarrow> (let namespaceAlias = trim t in addImport filePath cu (CHR ''*'' # namespaceAlias)))"

definition requireBody :: "string \<Rightarrow> string list obj \<Rightarrow> string option \<Rightarrow> string list obj completion" where
  "requireBody filePath cu g =
     (case g of None \<Rightarrow> Thrown cu
      | Some t \<Rightarrow> foldC (addImport filePath) cu (requireComponents t))"

definition requireDefaultBody :: "string \<Rightarrow> string list obj \<Rightarrow> string option \<Rightarrow> string list obj completion" where
  "requireDefaultBody filePath cu g =
     (case g of None \<Rightarrow> Thrown cu
      | Some t \<Rightarrow> (let defaultComponent = trim t in addImport filePath cu defaultComponent))"

definition findImports :: "string \<Rightarrow> string \<Rightarrow> string list obj \<Rightarrow> string list obj completion option" where
  "findImports content filePath cu =
     thenC (whileExec namedImportPattern content (namedBody filePath) cu) (\<lambda>cu.
     thenC (whileExec defaultImportPattern content (defaultBody filePath) cu) (\<lambda>cu.
     thenC (whileExec namespaceImportPattern content (namespaceBody filePath) cu) (\<lambda>cu.
     thenC (whileExec requirePattern content (requireBody filePath) cu) (\<lambda>cu.
     whileExec requireDefaultPattern content (requireDefaultBody filePath) cu))))"


section \<open>The usage patterns\<close>

text \<open>
  The source builds each usage pattern from the text of a symbol, which it passes to
  \<open>new RegExp\<close> without escaping. A symbol made of word characters contains no pattern
  operator, so in the pattern it stands for itself, as the literal \<^const>\<open>Lit\<close> below:
  these are the symbols the model covers, and the theorems below say so where they speak
  of a symbol. The source reads any other symbol as a pattern of its own, or throws a
  \<open>SyntaxError\<close> when it is not one; the model does not cover that.
\<close>

definition identChar :: cclass where
  "identChar = In [WordC, Ch (CHR ''-'')]"

text \<open>\<^verbatim>\<open>([A-Za-z0-9_]+)\<close>\<close>

definition memberChars :: cclass where
  "memberChars = In [Rg (CHR ''A'') (CHR ''Z''), Rg (CHR ''a'') (CHR ''z''),
     Rg (CHR ''0'') (CHR ''9''), Ch (CHR ''_'')]"

definition memberName :: regex where
  "memberName = Group (Many1 memberChars)"

text \<open>\<^verbatim>\<open>[^>]*?(?:>|/>)\<close>\<close>

definition tagRest :: "regex list" where
  "tagRest = [ManyLazy (NotIn [Ch (CHR ''>'')]), Alt (Lit ''>'') (Lit ''/>'')]"

text \<open>\<^verbatim>\<open><${component}(?![\w-])(?![\w-])[^>]*?(?:>|/>)\<close>\<close>

definition jsxPattern :: "string \<Rightarrow> regex" where
  "jsxPattern component =
     cat ([Lit ''<'', Lit component, NotAhead (Cls identChar), NotAhead (Cls identChar)] @ tagRest)"

text \<open>\<^verbatim>\<open><${namespaceAlias}\.([A-Za-z0-9_]+)(?![\w-])[^>]*?(?:>|/>)\<close>\<close>

definition namespaceJSXPattern :: "string \<Rightarrow> regex" where
  "namespaceJSXPattern namespaceAlias =
     cat ([Lit ''<'', Lit namespaceAlias, Lit ''.'', memberName, NotAhead (Cls identChar)] @ tagRest)"

text \<open>\<^verbatim>\<open>${namespaceAlias}\.([A-Za-z0-9_]+)\s*\(\<close>\<close>

definition namespaceFuncPattern :: "string \<Rightarrow> regex" where
  "namespaceFuncPattern namespaceAlias =
     cat [Lit namespaceAlias, Lit ''.'', memberName, Many space, Lit ''('']"

text \<open>\<^verbatim>\<open>(?<![.<])\b${component}\s*\(\<close>\<close>

definition functionCallPattern :: "string \<Rightarrow> regex" where
  "functionCallPattern component =
     cat [NotBehind (In [Ch (CHR ''.''), Ch (CHR ''<'')]), WordB, Lit component, Many space,
          Lit ''('']"

section \<open>The state and findComponentUsages\<close>

record state =
  componentUsage :: "string list obj"
  componentInstancesJSX :: "string list obj"
  componentInstancesFunc :: "string list obj"

definition initialState :: state where
  "initialState = \<lparr>componentUsage = [], componentInstancesJSX = [], componentInstancesFunc = []\<rparr>"

text \<open>
  \<open>Object.keys\<close>: the keys that are array indices first, in ascending numeric order,
  then the other keys in the order of their creation.
\<close>

definition isDigit :: "char \<Rightarrow> bool" where
  "isDigit c = (48 \<le> (of_char c :: nat) \<and> (of_char c :: nat) \<le> 57)"

definition digitsValue :: "string \<Rightarrow> int" where
  "digitsValue k = foldl (\<lambda>a c. 10 * a + (of_char c - 48)) 0 k"

definition isArrayIndex :: "string \<Rightarrow> bool" where
  "isArrayIndex k =
     (case k of
        [] \<Rightarrow> False
      | c # cs \<Rightarrow> list_all isDigit k \<and> (c \<noteq> CHR ''0'' \<or> cs = []) \<and> digitsValue k < 4294967295)"

definition objectKeys :: "'a obj \<Rightarrow> string list" where
  "objectKeys t =
     (let ks = map fst t
      in sort_key digitsValue (filter isArrayIndex ks) @ filter (\<lambda>k. \<not> isArrayIndex k) ks)"

text \<open>
  \<^verbatim>\<open>if (!table[key]) { table[key] = []; }  table[key].push(filePath);\<close>

  The keys of the instance tables are own keys of \<open>componentUsage\<close> or contain a dot, so
  none of them is a name that \<open>Object.prototype\<close> defines.
\<close>

definition instances :: "string list obj \<Rightarrow> string \<Rightarrow> string list" where
  "instances t k = (case map_of t k of None \<Rightarrow> [] | Some fs \<Rightarrow> fs)"

definition pushInstance :: "string \<Rightarrow> string \<Rightarrow> string list obj \<Rightarrow> string list obj" where
  "pushInstance filePath k t = AList.update k (instances t k @ [filePath]) t"

definition extractJSXUsage :: "string \<Rightarrow> string \<Rightarrow> (nat \<times> nat \<times> string option) list option" where
  "extractJSXUsage content component = execAll (jsxPattern component) None content"

text \<open>\<^verbatim>\<open>`${namespaceAlias}.${componentName}`\<close>, where \<open>componentName\<close> is \<open>match[1]\<close>.\<close>

definition fullComponentName :: "string \<Rightarrow> string option \<Rightarrow> string" where
  "fullComponentName namespaceAlias g =
     namespaceAlias @ ''.'' @ (case g of None \<Rightarrow> ''undefined'' | Some componentName \<Rightarrow> componentName)"

text \<open>The branch of the loop body for a key that starts with \<open>*\<close>.\<close>

definition namespaceUsages :: "string \<Rightarrow> string \<Rightarrow> string \<Rightarrow> state \<Rightarrow> state option" where
  "namespaceUsages content filePath namespaceAlias st =
     (case execAll (namespaceJSXPattern namespaceAlias) None content of
        None \<Rightarrow> None
      | Some jsxMatches \<Rightarrow>
          (let names = map (\<lambda>(i, n, g). fullComponentName namespaceAlias g) jsxMatches;
               namespaceComponents = set names;
               jsx = foldl (\<lambda>t k. pushInstance filePath k t) (componentInstancesJSX st) names
           in case execAll (namespaceFuncPattern namespaceAlias) None content of
                None \<Rightarrow> None
              | Some funcMatches \<Rightarrow>
                  (let calls = filter (\<lambda>k. k \<notin> namespaceComponents)
                                 (map (\<lambda>(i, n, g). fullComponentName namespaceAlias g) funcMatches)
                   in Some (st\<lparr>componentInstancesJSX := jsx,
                                componentInstancesFunc :=
                                  foldl (\<lambda>t k. pushInstance filePath k t)
                                    (componentInstancesFunc st) calls\<rparr>))))"

text \<open>The rest of the loop body, for a plain key.\<close>

definition plainUsages :: "string \<Rightarrow> string \<Rightarrow> string \<Rightarrow> state \<Rightarrow> state option" where
  "plainUsages content filePath component st =
     (case extractJSXUsage content component of
        None \<Rightarrow> None
      | Some jsxMatches \<Rightarrow>
          (let jsx = ((pushInstance filePath component) ^^ (length jsxMatches))
                       (componentInstancesJSX st)
           in if filePath \<in> set (instances jsx component)
              then Some (st\<lparr>componentInstancesJSX := jsx\<rparr>)
              else (case execAll (functionCallPattern component) None content of
                      None \<Rightarrow> None
                    | Some funcMatches \<Rightarrow>
                        Some (st\<lparr>componentInstancesJSX := jsx,
                                 componentInstancesFunc :=
                                   ((pushInstance filePath component) ^^ (length funcMatches))
                                     (componentInstancesFunc st)\<rparr>))))"

definition usagesOf :: "string \<Rightarrow> string \<Rightarrow> string \<Rightarrow> state \<Rightarrow> state option" where
  "usagesOf content filePath component st =
     (if startsWith component ''*''
      then namespaceUsages content filePath (drop 1 component) st
      else plainUsages content filePath component st)"

text \<open>\<^verbatim>\<open>for (const component of Object.keys(componentUsage)) { ... }\<close>\<close>

fun forKeys :: "(string \<Rightarrow> state \<Rightarrow> state option) \<Rightarrow> string list \<Rightarrow> state \<Rightarrow> state option" where
  "forKeys body [] st = Some st"
| "forKeys body (k # ks) st = (case body k st of None \<Rightarrow> None | Some st' \<Rightarrow> forKeys body ks st')"

definition findComponentUsages :: "string \<Rightarrow> string \<Rightarrow> state \<Rightarrow> state option" where
  "findComponentUsages content filePath st =
     forKeys (usagesOf content filePath) (objectKeys (componentUsage st)) st"

section \<open>processFile and the walk\<close>

text \<open>
  A file is its path relative to the working directory and its text; \<open>None\<close> for the
  text is a file that cannot be read. An error thrown while a file is processed is
  caught and logged, and the tables stay as the statements before it left them.
\<close>

definition processFile :: "string \<times> string option \<Rightarrow> state \<Rightarrow> state option" where
  "processFile file st =
     (case snd file of
        None \<Rightarrow> Some st
      | Some content \<Rightarrow>
          (case findImports content (fst file) (componentUsage st) of
             None \<Rightarrow> None
           | Some (Thrown cu) \<Rightarrow> Some (st\<lparr>componentUsage := cu\<rparr>)
           | Some (Normal cu) \<Rightarrow>
               if length (objectKeys cu) > 0
               then findComponentUsages content (fst file) (st\<lparr>componentUsage := cu\<rparr>)
               else Some (st\<lparr>componentUsage := cu\<rparr>)))"

text \<open>\<open>walkDirectory\<close> calls \<open>processFile\<close> on the files of the tree it accepts, one after
  the other; the list is these files in the order of the walk.\<close>

fun walkFiles :: "(string \<times> string option) list \<Rightarrow> state \<Rightarrow> state option" where
  "walkFiles [] st = Some st"
| "walkFiles (file # files) st =
     (case processFile file st of None \<Rightarrow> None | Some st' \<Rightarrow> walkFiles files st')"


section \<open>generateReport\<close>

definition nl :: string where
  "nl = [CHR 0x0A]"

definition digitChar :: "nat \<Rightarrow> char" where
  "digitChar d = char_of (48 + d)"

text \<open>A number in a template string: its decimal digits.\<close>

fun showNat :: "nat \<Rightarrow> string" where
  "showNat n = (if n < 10 then [digitChar n] else showNat (n div 10) @ [digitChar (n mod 10)])"

declare showNat.simps [simp del]

definition rule :: string where
  "rule = ''------------------------------------------'' @ nl"

text \<open>\<^verbatim>\<open>Object.values(table).reduce((sum, instances) => sum + instances.length, 0)\<close>\<close>

definition totalInstances :: "string list obj \<Rightarrow> nat" where
  "totalInstances t = foldl (\<lambda>sum instances. sum + length instances) 0 (map snd t)"

definition summaryBlock :: "state \<Rightarrow> string" where
  "summaryBlock st =
     (let totalImportedComponents = length (objectKeys (componentUsage st));
          totalJSXInstances = totalInstances (componentInstancesJSX st);
          totalFuncInstances = totalInstances (componentInstancesFunc st);
          totalAllInstances = totalJSXInstances + totalFuncInstances
      in ''SUMMARY'' @ nl @ rule
         @ ''Total imported components: '' @ showNat totalImportedComponents @ nl
         @ ''Total component instances: '' @ showNat totalAllInstances @ nl
         @ ''  - JSX usage (<Component/>): '' @ showNat totalJSXInstances @ nl
         @ ''  - Function calls (Component()): '' @ showNat totalFuncInstances @ nl @ nl)"

definition importedBlock :: "state \<Rightarrow> string" where
  "importedBlock st =
     ''IMPORTED COMPONENTS'' @ nl @ rule
     @ concat (map (\<lambda>component.
         (let files = instances (componentUsage st) component
          in component @ '':'' @ nl
             @ ''  Imported in '' @ showNat (length files) @ '' file(s):'' @ nl
             @ concat (map (\<lambda>file. ''    - '' @ file @ nl) files)
             @ nl))
         (sort (objectKeys (componentUsage st))))"

text \<open>
  The lines of one usage entry. \<open>fileGroups\<close> counts the occurrences of each file path;
  its keys are listed sorted. A path ends in one of the scanned extensions, so it is
  neither an array index nor a name of \<open>Object.prototype\<close>.
\<close>

definition fileGroupLines :: "string list \<Rightarrow> string" where
  "fileGroupLines insts =
     concat (map (\<lambda>file. ''    - '' @ file @ '' ('' @ showNat (count_list insts file)
                           @ '' instance(s))'' @ nl)
                 (sort (remdups insts)))"

text \<open>\<open>keys.sort((a, b) => table[b].length - table[a].length)\<close>: a stable sort by
  descending number of occurrences.\<close>

definition byCountDescending :: "string list obj \<Rightarrow> string list" where
  "byCountDescending t = sort_key (\<lambda>k. - int (length (instances t k))) (objectKeys t)"

definition usageEntries :: "string \<Rightarrow> string list obj \<Rightarrow> string" where
  "usageEntries how t =
     concat (map (\<lambda>component.
         (let insts = instances t component
          in component @ '':'' @ nl
             @ how @ showNat (length insts) @ '' time(s) in:'' @ nl
             @ fileGroupLines insts
             @ nl))
         (byCountDescending t))"

definition jsxBlock :: "state \<Rightarrow> string" where
  "jsxBlock st =
     ''JSX COMPONENT USAGE (<Component />)'' @ nl @ rule
     @ (if length (objectKeys (componentInstancesJSX st)) = 0
        then ''No JSX usage found.'' @ nl @ nl
        else usageEntries ''  Used as JSX '' (componentInstancesJSX st))"

definition funcBlock :: "state \<Rightarrow> string" where
  "funcBlock st =
     ''FUNCTION CALL USAGE (Component())'' @ nl @ rule
     @ (if length (objectKeys (componentInstancesFunc st)) = 0
        then ''No function call usage found.'' @ nl @ nl
        else usageEntries ''  Called as function '' (componentInstancesFunc st))"

text \<open>
  \<^verbatim>\<open>const usedComponentsSet = new Set([...Object.keys(componentInstancesJSX),
                                       ...Object.keys(componentInstancesFunc)]);
  const unusedComponents = Object.keys(componentUsage).filter(
    (c) => !usedComponentsSet.has(c) && !c.startsWith("*"));\<close>
\<close>

definition unusedComponents :: "state \<Rightarrow> string list" where
  "unusedComponents st =
     (let usedComponentsSet = set (objectKeys (componentInstancesJSX st))
                              \<union> set (objectKeys (componentInstancesFunc st))
      in filter (\<lambda>c. c \<notin> usedComponentsSet \<and> \<not> startsWith c ''*'')
                (objectKeys (componentUsage st)))"

definition unusedBlock :: "state \<Rightarrow> string" where
  "unusedBlock st =
     ''COMPONENTS WITH NO USAGE FOUND'' @ nl @ rule
     @ (if length (unusedComponents st) = 0
        then ''All imported components are used.'' @ nl @ nl
        else concat (map (\<lambda>component. component @ nl) (sort (unusedComponents st))) @ nl)"

text \<open>The report; \<open>timestamp\<close> is the value of \<open>new Date().toISOString()\<close>.\<close>

definition generateReport :: "string \<Rightarrow> state \<Rightarrow> string" where
  "generateReport timestamp st =
     ''Component Usage Report for '' @ [CHR 0x22] @ targetPackageName @ [CHR 0x22]
       @ '' package'' @ nl
     @ ''Generated on: '' @ timestamp @ nl
     @ ''=========================================='' @ nl @ nl
     @ summaryBlock st @ importedBlock st @ jsxBlock st @ funcBlock st @ unusedBlock st"

text \<open>The run: the walk from the empty tables, then the report.\<close>

definition main :: "(string \<times> string option) list \<Rightarrow> string \<Rightarrow> string option" where
  "main files timestamp =
     (case walkFiles files initialState of
        None \<Rightarrow> None
      | Some st \<Rightarrow> Some (generateReport timestamp st))"


section \<open>Notions used in the statements\<close>

text \<open>The least number of code units a match of a pattern consumes, and whether capture
  group 1 takes part in every match of it.\<close>

fun minLen :: "regex \<Rightarrow> nat" where
  "minLen (Lit w) = length w"
| "minLen (Cls k) = 1"
| "minLen (Many k) = 0"
| "minLen (Many1 k) = 1"
| "minLen (ManyLazy k) = 0"
| "minLen (Seq a b) = minLen a + minLen b"
| "minLen (Alt a b) = min (minLen a) (minLen b)"
| "minLen (Group a) = minLen a"
| "minLen (NotAhead a) = 0"
| "minLen (NotBehind k) = 0"
| "minLen WordB = 0"

fun hasGroup :: "regex \<Rightarrow> bool" where
  "hasGroup (Group a) = True"
| "hasGroup (Seq a b) = (hasGroup a \<or> hasGroup b)"
| "hasGroup (Alt a b) = (hasGroup a \<and> hasGroup b)"
| "hasGroup _ = False"

text \<open>The texts of capture group 1 of the matches that the loop over a pattern visits in
  a file text, in order.\<close>

definition captures :: "regex \<Rightarrow> string \<Rightarrow> string list" where
  "captures r content =
     (case execAll r None content of
        None \<Rightarrow> []
      | Some ms \<Rightarrow> concat (map (\<lambda>(i, n, g). case g of None \<Rightarrow> [] | Some t \<Rightarrow> [t]) ms))"

text \<open>The names that the five loops of \<^const>\<open>findImports\<close> pass to the table, in order.\<close>

definition namedNames :: "string \<Rightarrow> string list" where
  "namedNames content = concat (map namedComponents (captures namedImportPattern content))"

definition defaultNames :: "string \<Rightarrow> string list" where
  "defaultNames content =
     filter (\<lambda>k. k \<noteq> targetPackageName) (map trim (captures defaultImportPattern content))"

definition namespaceNames :: "string \<Rightarrow> string list" where
  "namespaceNames content = map (\<lambda>t. CHR ''*'' # trim t) (captures namespaceImportPattern content)"

definition requireNames :: "string \<Rightarrow> string list" where
  "requireNames content = concat (map requireComponents (captures requirePattern content))"

definition requireDefaultNames :: "string \<Rightarrow> string list" where
  "requireDefaultNames content = map trim (captures requireDefaultPattern content)"

definition importedNames :: "string \<Rightarrow> string list" where
  "importedNames content =
     namedNames content @ defaultNames content @ namespaceNames content
     @ requireNames content @ requireDefaultNames content"

text \<open>A name made of word characters, and the table after the names \<open>ks\<close> were added for
  the file \<open>f\<close>.\<close>

definition wordName :: "string \<Rightarrow> bool" where
  "wordName s = (s \<noteq> [] \<and> list_all isWord s)"

definition addAll :: "string \<Rightarrow> string list obj \<Rightarrow> string list \<Rightarrow> string list obj" where
  "addAll f cu ks = foldl (\<lambda>cu k. AList.update k (setAdd f (instances cu k)) cu) cu ks"

text \<open>Example file texts.\<close>

definition exampleNamed :: string where
  "exampleNamed = ''import { A, B as C } from \"your-package-name\"''"

definition exampleRequire :: string where
  "exampleRequire = ''const { A, B: C } = require(\"your-package-name\")''"

text \<open>The first success of a match attempt, and the capture a sequence reports.\<close>

definition firstMatch :: "regex \<Rightarrow> char option \<Rightarrow> string \<Rightarrow> (nat \<times> string option) option" where
  "firstMatch r p s = (case rmatch r p s of [] \<Rightarrow> None | x # _ \<Rightarrow> Some x)"

definition orElse :: "string option \<Rightarrow> string option \<Rightarrow> string option" where
  "orElse h g = (case h of None \<Rightarrow> g | Some t \<Rightarrow> Some t)"

text \<open>A text that the group \<open>([^{\s]+)\<close> of the default idioms can capture whole.\<close>

definition bindingName :: "string \<Rightarrow> bool" where
  "bindingName X = (X \<noteq> [] \<and> list_all (inClass (NotIn [Ch (CHR ''{''), SpaceC])) X)"

definition exampleDefault :: string where
  "exampleDefault = ''import Button from \"your-package-name\"''"

definition exampleSelfImport :: string where
  "exampleSelfImport = ''import your-package-name from \"your-package-name\"''"

definition exampleSelfRequire :: string where
  "exampleSelfRequire = ''const your-package-name = require(\"your-package-name\")''"

text \<open>The matches that a loop over a pattern visits in a file text.\<close>

definition matchesOf :: "regex \<Rightarrow> string \<Rightarrow> (nat \<times> nat \<times> string option) list" where
  "matchesOf r content = (case execAll r None content of None \<Rightarrow> [] | Some ms \<Rightarrow> ms)"

text \<open>Where a call-style match can start: the symbol stands there, followed by white
  space (or none) and \<open>(\<close>, and not preceded by \<open>.\<close> or \<open><\<close>. And where a markup-style match
  can.\<close>

definition callSiteAt :: "string \<Rightarrow> string \<Rightarrow> nat \<Rightarrow> nat \<Rightarrow> bool" where
  "callSiteAt S content i n =
     ((case prevAt None content i of
         None \<Rightarrow> True
       | Some c \<Rightarrow> c \<noteq> CHR ''.'' \<and> c \<noteq> CHR ''<'')
      \<and> (\<exists>ws rest. drop i content = S @ ws @ ''('' @ rest \<and> list_all isSpace ws
             \<and> n = length S + length ws + 1))"

definition openTagAt :: "string \<Rightarrow> string \<Rightarrow> nat \<Rightarrow> bool" where
  "openTagAt S content i =
     (\<exists>c rest. drop i content = ''<'' @ S @ c # rest \<and> \<not> inClass identChar c)"

text \<open>Whether a pattern contains a capture group.\<close>

fun anyGroup :: "regex \<Rightarrow> bool" where
  "anyGroup (Group a) = True"
| "anyGroup (Seq a b) = (anyGroup a \<or> anyGroup b)"
| "anyGroup (Alt a b) = (anyGroup a \<or> anyGroup b)"
| "anyGroup _ = False"

text \<open>The markup-style and call-style matches of a plain symbol in a file text, and the
  member keys of the matches of a namespace alias.\<close>

definition jsxMatches :: "string \<Rightarrow> string \<Rightarrow> (nat \<times> nat \<times> string option) list" where
  "jsxMatches content S = matchesOf (jsxPattern S) content"

definition callMatches :: "string \<Rightarrow> string \<Rightarrow> (nat \<times> nat \<times> string option) list" where
  "callMatches content S = matchesOf (functionCallPattern S) content"

definition nsJSXNames :: "string \<Rightarrow> string \<Rightarrow> string list" where
  "nsJSXNames content a =
     map (\<lambda>(i, n, g). fullComponentName a g) (matchesOf (namespaceJSXPattern a) content)"

definition nsCallNames :: "string \<Rightarrow> string \<Rightarrow> string list" where
  "nsCallNames content a =
     map (\<lambda>(i, n, g). fullComponentName a g) (matchesOf (namespaceFuncPattern a) content)"

definition exampleSpacedCall :: string where
  "exampleSpacedCall = ''Button (1)''"

definition exampleTags :: string where
  "exampleTags = ''<Card x=1></Card><Cardy/><Card-x/><NS.Tab/></NS.Tab>''"

text \<open>What the loop body for the key \<open>c\<close> adds under the usage key \<open>k\<close>: the number of
  markup-style entries, and the number of call-style entries when \<open>jsx\<close> is the
  markup-style table before.\<close>

definition jsxDelta :: "string \<Rightarrow> string \<Rightarrow> string \<Rightarrow> nat" where
  "jsxDelta content c k =
     (if startsWith c ''*'' then count_list (nsJSXNames content (drop 1 c)) k
      else if k = c then length (jsxMatches content c) else 0)"

definition funcDelta :: "string \<Rightarrow> string \<Rightarrow> string list obj \<Rightarrow> string \<Rightarrow> string \<Rightarrow> nat" where
  "funcDelta content f jsx c k =
     (if startsWith c ''*''
      then count_list (filter (\<lambda>k. k \<notin> set (nsJSXNames content (drop 1 c)))
                        (nsCallNames content (drop 1 c))) k
      else if k = c \<and> f \<notin> set (instances jsx c) \<and> jsxMatches content c = []
           then length (callMatches content c) else 0)"

text \<open>The table a block leaves, however it ends.\<close>

definition tableOf :: "'a completion \<Rightarrow> 'a" where
  "tableOf r = (case r of Normal t \<Rightarrow> t | Thrown t \<Rightarrow> t)"

text \<open>The names that the files of a list import.\<close>

definition importedBy :: "(string \<times> string option) list \<Rightarrow> string set" where
  "importedBy files =
     set (concat (map (\<lambda>file. case snd file of None \<Rightarrow> [] | Some content \<Rightarrow> importedNames content)
                      files))"

text \<open>No name that a file of the list binds is a name of \<open>Object.prototype\<close>.\<close>

definition plainNames :: "(string \<times> string option) list \<Rightarrow> bool" where
  "plainNames files = (importedBy files \<inter> set objectPrototypeKeys = {})"

text \<open>A key of the Symbol Table that the model covers: a name made of word characters,
  or \<open>*\<close> and such a name.\<close>

definition symbolKey :: "string \<Rightarrow> bool" where
  "symbolKey k = list_all isWord (if startsWith k ''*'' then drop 1 k else k)"

text \<open>A walk of three files: the second imports \<open>Button\<close>, the first and the third call it.\<close>

definition exampleCallOnly :: string where
  "exampleCallOnly = ''Button(1)''"

definition exampleImportAndCall :: string where
  "exampleImportAndCall = ''import Button from \"your-package-name\"; Button(2)''"

definition exampleOrder :: "(string \<times> string option) list" where
  "exampleOrder = [(''b.js'', Some exampleCallOnly), (''a.js'', Some exampleImportAndCall),
                   (''c.js'', Some exampleCallOnly)]"

text \<open>Every key of an instance table has at least one entry.\<close>

definition noEmptyEntry :: "string list obj \<Rightarrow> bool" where
  "noEmptyEntry t = (\<forall>k \<in> fst ` set t. instances t k \<noteq> [])"

text \<open>A file that imports three names and uses one.\<close>

definition exampleUnused :: "(string \<times> string option) list" where
  "exampleUnused =
     [(''a.js'', Some ''import { X, Y } from \"your-package-name\"; import * as NS from \"your-package-name\"; <X/>'')]"

text \<open>The key of the Symbol Table whose loop body can record entries under a usage key.\<close>

definition owner :: "string \<Rightarrow> string" where
  "owner k = (if CHR ''.'' \<in> set k then CHR ''*'' # takeWhile (\<lambda>c. c \<noteq> CHR ''.'') k else k)"

definition exampleBoth :: "(string \<times> string option) list" where
  "exampleBoth =
     [(''a.js'', Some ''import Button from \"your-package-name\"; <Button/> Button(1)''),
      (''b.js'', Some ''Button(2)'')]"

text \<open>A walk of three files: the second imports a namespace and a plain symbol and uses
  both, the first and the third use them without importing them.\<close>

definition exampleWalk :: "(string \<times> string option) list" where
  "exampleWalk =
     [(''u.js'', Some ''<NS.Tab/> NS.open(1) Card(0)''),
      (''v.js'', Some ''import * as NS from \"your-package-name\"; import { Card } from \"your-package-name\"; <NS.Tab/> NS.Tab(1) NS.open(2) <Card/> Card(3)''),
      (''w.js'', Some ''NS.open(3) Card(4)'')]"

text \<open>File texts that bind a name which every object inherits from \<open>Object.prototype\<close>,
  and a binding list with a trailing comma.\<close>

definition exampleInherited :: string where
  "exampleInherited = ''import toString from \"your-package-name\"''"

definition exampleInheritedFirst :: string where
  "exampleInheritedFirst =
     ''import { valueOf } from \"your-package-name\"; import Button from \"your-package-name\"''"

definition exampleInheritedRequire :: string where
  "exampleInheritedRequire =
     ''import { toString } from \"your-package-name\"; const your-package-name = require(\"your-package-name\")''"

definition exampleTrailingComma :: string where
  "exampleTrailingComma = ''import { Card, } from \"your-package-name\"; <Card></Card>''"

text \<open>A walk in which the usage of \<open>X\<close> is processed before its import.\<close>

definition exampleUsedBeforeImport :: "(string \<times> string option) list" where
  "exampleUsedBeforeImport =
     [(''a.js'', Some ''<X/>''), (''b.js'', Some ''import { X, Y } from \"your-package-name\"'')]"

section \<open>Properties of the matcher\<close>

lemma rmatch_minLen: "(n, g) \<in> set (rmatch r p s) \<Longrightarrow> minLen r \<le> n"
proof (induction r arbitrary: n g p s)
  case (Seq a b)
  from Seq.prems obtain n1 g1 n2 g2 where
    a: "(n1, g1) \<in> set (rmatch a p s)" and
    b: "(n2, g2) \<in> set (rmatch b (prevAt p s n1) (drop n1 s))" and
    n: "n = n1 + n2"
    by auto
  from Seq.IH(1) [OF a] Seq.IH(2) [OF b] n show ?case by simp
next
  case (Alt a b)
  from Alt.prems have "(n, g) \<in> set (rmatch a p s) \<or> (n, g) \<in> set (rmatch b p s)" by simp
  then show ?case using Alt.IH by (auto intro: min.coboundedI1 min.coboundedI2)
qed (auto split: if_splits list.splits option.splits)

lemma rmatch_hasGroup: "hasGroup r \<Longrightarrow> (n, g) \<in> set (rmatch r p s) \<Longrightarrow> g \<noteq> None"
proof (induction r arbitrary: n g p s)
  case (Seq a b)
  from Seq.prems(2) obtain n1 g1 n2 g2 where
    a: "(n1, g1) \<in> set (rmatch a p s)" and
    b: "(n2, g2) \<in> set (rmatch b (prevAt p s n1) (drop n1 s))" and
    g: "g = (case g2 of None \<Rightarrow> g1 | Some t \<Rightarrow> Some t)"
    by auto
  from Seq.prems(1) have "hasGroup a \<or> hasGroup b" by simp
  then show ?case
  proof
    assume "hasGroup a"
    from Seq.IH(1) [OF this a] g show ?thesis by (auto split: option.splits)
  next
    assume "hasGroup b"
    from Seq.IH(2) [OF this b] g show ?thesis by (auto split: option.splits)
  qed
qed auto

lemma exec_Some_hd:
  "exec r p s = Some (i, n, g) \<Longrightarrow>
     i \<le> length s \<and> (\<exists>rest. rmatch r (prevAt p s i) (drop i s) = (n, g) # rest)"
proof (induction r p s arbitrary: i n g rule: exec.induct)
  case (1 r p)
  then show ?case by (auto split: list.splits simp: prevAt_def)
next
  case (2 r p c cs)
  show ?case
  proof (cases "rmatch r p (c # cs)")
    case Nil
    with 2(2) obtain j where e: "exec r (Some c) cs = Some (j, n, g)" and i: "i = Suc j"
      by (auto split: option.splits)
    from 2(1) [OF Nil e] i show ?thesis
      by (auto simp: prevAt_def split: list.splits)
  next
    case (Cons x xs)
    with 2(2) show ?thesis by (auto simp: prevAt_def split: prod.splits)
  qed
qed

lemma execAll_total: "0 < minLen r \<Longrightarrow> \<exists>ms. execAll r p s = Some ms"
proof (induction r p s rule: execAll.induct)
  case (1 r p s)
  show ?case
  proof (cases "exec r p s")
    case None
    then show ?thesis by (simp add: execAll.simps)
  next
    case (Some m)
    obtain i n g where m: "m = (i, n, g)" by (cases m) auto
    from exec_Some_hd [OF Some [unfolded m]] have "(n, g) \<in> set (rmatch r (prevAt p s i) (drop i s))"
      by auto
    from rmatch_minLen [OF this] 1(2) have n: "n \<noteq> 0" by simp
    from 1(1) [OF Some m [symmetric] refl n 1(2)] obtain ms where
      "execAll r (prevAt p s (i + n)) (drop (i + n) s) = Some ms" by auto
    with Some m n show ?thesis by (simp add: execAll.simps)
  qed
qed

lemma execAll_groups:
  "hasGroup r \<Longrightarrow> execAll r p s = Some ms \<Longrightarrow> (i, n, g) \<in> set ms \<Longrightarrow> g \<noteq> None"
proof (induction r p s arbitrary: ms i n g rule: execAll.induct)
  case (1 r p s)
  show ?case
  proof (cases "exec r p s")
    case None
    with 1(3,4) show ?thesis by (simp add: execAll.simps)
  next
    case (Some m)
    obtain i0 n0 g0 where m: "m = (i0, n0, g0)" by (cases m) auto
    from exec_Some_hd [OF Some [unfolded m]]
    have hd: "(n0, g0) \<in> set (rmatch r (prevAt p s i0) (drop i0 s))" by auto
    from 1(3) Some m have n0: "n0 \<noteq> 0"
      by (auto simp: execAll.simps [of r p s] split: if_splits)
    from 1(3) Some m n0 obtain ms' where
      rec: "execAll r (prevAt p s (i0 + n0)) (drop (i0 + n0) s) = Some ms'" and
      ms: "ms = (i0, n0, g0) # map (\<lambda>(j, m, h). (i0 + n0 + j, m, h)) ms'"
      by (auto simp: execAll.simps [of r p s] split: option.splits)
    from 1(4) ms consider "(i, n, g) = (i0, n0, g0)" | j where "(j, n, g) \<in> set ms'"
      by auto
    then show ?thesis
    proof cases
      case 1
      with rmatch_hasGroup [OF \<open>hasGroup r\<close> hd] show ?thesis by simp
    next
      case 2
      from "1.IH" [OF Some m [symmetric] refl n0 \<open>hasGroup r\<close> rec 2] show ?thesis .
    qed
  qed
qed

lemma map_Some_captures:
  assumes "\<forall>(i, n, g) \<in> set ms. g \<noteq> None"
  shows "map (\<lambda>(i, n, g). g) ms
         = map Some (concat (map (\<lambda>(i, n, g). case g of None \<Rightarrow> [] | Some t \<Rightarrow> [t]) ms))"
  using assms by (induction ms) (auto split: option.splits)

lemma whileExec_captures:
  assumes "hasGroup r" and "0 < minLen r"
  shows "whileExec r content body st = Some (foldC body st (map Some (captures r content)))"
proof -
  from execAll_total [OF assms(2)] obtain ms where ms: "execAll r None content = Some ms"
    by blast
  have "\<forall>(i, n, g) \<in> set ms. g \<noteq> None"
    using execAll_groups [OF assms(1) ms] by auto
  from map_Some_captures [OF this] ms show ?thesis
    by (simp add: whileExec_def captures_def)
qed

section \<open>Properties of the text functions\<close>

lemma isWord_not_space: "isWord c \<Longrightarrow> \<not> isSpace c"
  by (auto simp: isWord_def isSpace_def Let_def)

lemma isWord_neq [simp]:
  "isWord c \<Longrightarrow> c \<noteq> CHR '' ''" "isWord c \<Longrightarrow> c \<noteq> CHR '',''" "isWord c \<Longrightarrow> c \<noteq> CHR '':''"
  "isWord c \<Longrightarrow> c \<noteq> CHR ''.''" "isWord c \<Longrightarrow> c \<noteq> CHR ''/''" "isWord c \<Longrightarrow> c \<noteq> CHR ''*''"
  "isWord c \<Longrightarrow> c \<noteq> CHR ''<''" "isWord c \<Longrightarrow> c \<noteq> CHR ''(''" "isWord c \<Longrightarrow> c \<noteq> CHR ''-''"
  by (auto simp: isWord_def Let_def)

lemma trim_pad:
  assumes "list_all isSpace u" "list_all isSpace v" "s \<noteq> []" "\<not> isSpace (hd s)" "\<not> isSpace (last s)"
  shows "trim (u @ s @ v) = s"
proof -
  from assms(3,4) have hs: "dropWhile isSpace s = s" by (cases s) auto
  from assms(1) have "dropWhile isSpace (u @ s @ v) = dropWhile isSpace (s @ v)"
    by (induction u) auto
  also from assms(3,4) have "\<dots> = s @ v" by (cases s) auto
  finally have 1: "dropWhile isSpace (u @ s @ v) = s @ v" .
  from assms(2) have "dropWhile isSpace (rev v @ rev s) = dropWhile isSpace (rev s)"
    by (induction v rule: rev_induct) auto
  also from assms(3,5) have "\<dots> = rev s" by (cases s rule: rev_cases) auto
  finally show ?thesis by (simp add: trim_def 1)
qed

lemma wordName_ends: "wordName s \<Longrightarrow> s \<noteq> [] \<and> \<not> isSpace (hd s) \<and> \<not> isSpace (last s)"
  by (auto simp: wordName_def list_all_iff isWord_not_space)

lemma trim_word: "wordName s \<Longrightarrow> trim s = s"
  using trim_pad [of "[]" "[]" s] wordName_ends [of s] by simp

lemma splitAcc_no_sep:
  "x \<notin> set u \<Longrightarrow> splitAcc (x # xs) acc u = [rev acc @ u]"
  by (induction u arbitrary: acc) auto

lemma splitAcc_sep:
  "x \<notin> set u \<Longrightarrow>
   splitAcc (x # xs) acc (u @ (x # xs) @ rest) = (rev acc @ u) # splitAcc (x # xs) [] rest"
  by (induction u arbitrary: acc) auto

lemma split_comma2:
  assumes "CHR '','' \<notin> set u" "CHR '','' \<notin> set v"
  shows "split '','' (u @ '','' @ v) = [u, v]"
  using splitAcc_sep [of "CHR '',''" u "[]" "[]" v] splitAcc_no_sep [of "CHR '',''" v "[]" "[]"] assms
  by (simp add: split_def)

lemma first_split_sep:
  "x \<notin> set u \<Longrightarrow> first (split (x # xs) (u @ (x # xs) @ rest)) = u"
  using splitAcc_sep [of x u xs "[]" rest] by (simp add: split_def first_def)

lemma first_split_no_sep:
  "x \<notin> set u \<Longrightarrow> first (split (x # xs) u) = u"
  using splitAcc_no_sep [of x u xs "[]"] by (simp add: split_def first_def)

lemma word_set: "wordName s \<Longrightarrow> c \<in> set s \<Longrightarrow> isWord c"
  by (auto simp: wordName_def list_all_iff)

lemma word_notin: "wordName s \<Longrightarrow> \<not> isWord c \<Longrightarrow> c \<notin> set s"
  by (auto dest: word_set)

lemma not_isWord [simp]:
  "\<not> isWord (CHR '' '')" "\<not> isWord (CHR '','')" "\<not> isWord (CHR '':'')"
  by (simp_all add: isWord_def)

lemma word_no_punct:
  "wordName s \<Longrightarrow> CHR '' '' \<notin> set s \<and> CHR '','' \<notin> set s \<and> CHR '':'' \<notin> set s"
  by (auto dest: word_set)

lemma splitAcc_skip:
  "x \<notin> set u \<Longrightarrow> splitAcc (x # xs) acc (u @ rest) = splitAcc (x # xs) (rev u @ acc) rest"
  by (induction u arbitrary: acc) auto

lemma namedComponents_idiom:
  assumes "wordName A" "wordName B" "wordName C"
  shows "namedComponents ('' '' @ A @ '', '' @ B @ '' as '' @ C @ '' '') = [A, B]"
proof -
  have nc: "CHR '','' \<notin> set ('' '' @ A)" "CHR '','' \<notin> set ('' '' @ B @ '' as '' @ C @ '' '')"
    using assms by (auto dest: word_set)
  have s: "split '','' ('' '' @ A @ '', '' @ B @ '' as '' @ C @ '' '')
           = ['' '' @ A, '' '' @ B @ '' as '' @ C @ '' '']"
    using split_comma2 [OF nc] by simp
  have tA: "trim ('' '' @ A) = A"
    using trim_pad [of "'' ''" "[]" A] wordName_ends [OF assms(1)] by (simp add: isSpace_def)
  have e: "\<not> isSpace (hd (B @ '' as '' @ C))" "\<not> isSpace (last (B @ '' as '' @ C))"
    using wordName_ends [OF assms(2)] wordName_ends [OF assms(3)] by auto
  have tB: "trim ('' '' @ B @ '' as '' @ C @ '' '') = B @ '' as '' @ C"
    using trim_pad [of "'' ''" "'' ''" "B @ '' as '' @ C"] e by (simp add: isSpace_def)
  have nb: "CHR '' '' \<notin> set B" using assms(2) by (auto dest: word_set)
  have fB: "first (split '' as '' (B @ '' as '' @ C)) = B"
    using first_split_sep [OF nb, of "''as ''" C] by simp
  have fA: "first (split '' as '' A) = A"
    using first_split_no_sep [of "CHR '' ''" A "''as ''"] word_no_punct [OF assms(1)] by simp
  show ?thesis
    unfolding namedComponents_def s list.map tA tB fA fB trim_word [OF assms(1)]
      trim_word [OF assms(2)] by (rule refl)
qed

lemma requireComponents_idiom:
  assumes "wordName A" "wordName B" "wordName C"
  shows "requireComponents ('' '' @ A @ '', '' @ B @ '': '' @ C @ '' '') = [A, B]"
proof -
  have nc: "CHR '','' \<notin> set ('' '' @ A)" "CHR '','' \<notin> set ('' '' @ B @ '': '' @ C @ '' '')"
    using assms by (auto dest: word_set)
  have s: "split '','' ('' '' @ A @ '', '' @ B @ '': '' @ C @ '' '')
           = ['' '' @ A, '' '' @ B @ '': '' @ C @ '' '']"
    using split_comma2 [OF nc] by simp
  have tA: "trim ('' '' @ A) = A"
    using trim_pad [of "'' ''" "[]" A] wordName_ends [OF assms(1)] by (simp add: isSpace_def)
  have nb: "CHR '':'' \<notin> set B" "CHR '' '' \<notin> set B" using assms(2) by (auto dest: word_set)
  have na: "CHR '':'' \<notin> set A" "CHR '' '' \<notin> set A" using assms(1) by (auto dest: word_set)
  have e: "\<not> isSpace (hd (B @ '': '' @ C))" "\<not> isSpace (last (B @ '': '' @ C))"
    using wordName_ends [OF assms(2)] wordName_ends [OF assms(3)] by auto
  have tB: "trim ('' '' @ B @ '': '' @ C @ '' '') = B @ '': '' @ C"
    using trim_pad [of "'' ''" "'' ''" "B @ '': '' @ C"] e by (simp add: isSpace_def)
  have nC: "CHR '' '' \<notin> set C" using assms(3) by (auto dest: word_set)
  have "take 3 C \<noteq> ''as ''"
  proof
    assume "take 3 C = ''as ''"
    then have "CHR '' '' \<in> set (take 3 C)" by simp
    then have "CHR '' '' \<in> set C" by (rule in_set_takeD)
    with nC show False by simp
  qed
  then have "splitAcc '' as '' acc ('' '' @ C) = [rev acc @ '' '' @ C]" for acc
    using splitAcc_no_sep [OF nC, of "''as ''" "CHR '' '' # acc"] by (simp add: numeral_3_eq_3)
  moreover have "CHR '' '' \<notin> set (B @ '':'')" using nb by simp
  ultimately have "splitAcc '' as '' [] ((B @ '':'') @ '' '' @ C) = [B @ '': '' @ C]"
    using splitAcc_skip [of "CHR '' ''" "B @ '':''" "''as ''" "[]" "'' '' @ C"] by simp
  then have asB: "first (split '' as '' (B @ '': '' @ C)) = B @ '': '' @ C"
    by (simp add: split_def first_def)
  have fB: "first (split '':'' (B @ '': '' @ C)) = B"
    using first_split_sep [OF nb(1), of "[]" "'' '' @ C"] by simp
  have fA: "first (split '' as '' A) = A" "first (split '':'' A) = A"
    using first_split_no_sep [of "CHR '' ''" A "''as ''"] first_split_no_sep [of "CHR '':''" A "[]"] na
    by auto
  show ?thesis
    unfolding requireComponents_def s list.map tA tB asB fA fB trim_word [OF assms(1)]
      trim_word [OF assms(2)] by (rule refl)
qed

section \<open>Properties of findImports\<close>

lemma foldC_append:
  "foldC body st (xs @ ys)
   = (case foldC body st xs of Normal st' \<Rightarrow> foldC body st' ys | Thrown st' \<Rightarrow> Thrown st')"
  by (induction xs arbitrary: st) (auto split: completion.splits)

lemma foldC_namedBody:
  "foldC (namedBody f) cu (map Some ts) = foldC (addImport f) cu (concat (map namedComponents ts))"
  by (induction ts arbitrary: cu) (auto simp: namedBody_def foldC_append split: completion.splits)

lemma foldC_requireBody:
  "foldC (requireBody f) cu (map Some ts) = foldC (addImport f) cu (concat (map requireComponents ts))"
  by (induction ts arbitrary: cu) (auto simp: requireBody_def foldC_append split: completion.splits)

lemma foldC_defaultBody:
  "foldC (defaultBody f) cu (map Some ts)
   = foldC (addImport f) cu (filter (\<lambda>k. k \<noteq> targetPackageName) (map trim ts))"
  by (induction ts arbitrary: cu) (auto simp: defaultBody_def Let_def split: completion.splits)

lemma foldC_namespaceBody:
  "foldC (namespaceBody f) cu (map Some ts)
   = foldC (addImport f) cu (map (\<lambda>t. CHR ''*'' # trim t) ts)"
  by (induction ts arbitrary: cu) (auto simp: namespaceBody_def Let_def split: completion.splits)

lemma foldC_requireDefaultBody:
  "foldC (requireDefaultBody f) cu (map Some ts) = foldC (addImport f) cu (map trim ts)"
  by (induction ts arbitrary: cu) (auto simp: requireDefaultBody_def Let_def split: completion.splits)

lemma import_patterns_ok:
  "hasGroup namedImportPattern" "0 < minLen namedImportPattern"
  "hasGroup defaultImportPattern" "0 < minLen defaultImportPattern"
  "hasGroup namespaceImportPattern" "0 < minLen namespaceImportPattern"
  "hasGroup requirePattern" "0 < minLen requirePattern"
  "hasGroup requireDefaultPattern" "0 < minLen requireDefaultPattern"
  by (simp_all add: namedImportPattern_def defaultImportPattern_def namespaceImportPattern_def
      requirePattern_def requireDefaultPattern_def cat_def fromTarget_def requireTarget_def
      declKeyword_def)

lemma thenC_Some:
  "thenC (Some c) f = (case c of Thrown s \<Rightarrow> Some (Thrown s) | Normal s \<Rightarrow> f s)"
  by (simp add: thenC_def split: completion.splits)

lemma findImports_eq:
  "findImports content f cu = Some (foldC (addImport f) cu (importedNames content))"
  unfolding findImports_def importedNames_def namedNames_def defaultNames_def
    namespaceNames_def requireNames_def requireDefaultNames_def
  by (simp add: whileExec_captures import_patterns_ok thenC_Some foldC_append foldC_namedBody
      foldC_requireBody foldC_defaultBody foldC_namespaceBody foldC_requireDefaultBody
      split: completion.splits)

lemma instances_update:
  "instances (AList.update k v t) k' = (if k' = k then v else instances t k')"
  by (simp add: instances_def update_conv')

lemma addImport_Normal:
  "k \<notin> set objectPrototypeKeys \<Longrightarrow>
   addImport f cu k = Normal (AList.update k (setAdd f (instances cu k)) cu)"
  by (simp add: addImport_def getProp_def instances_def setAdd_def split: option.splits)

lemma foldC_addImport:
  "set ks \<inter> set objectPrototypeKeys = {} \<Longrightarrow> foldC (addImport f) cu ks = Normal (addAll f cu ks)"
  by (induction ks arbitrary: cu) (auto simp: addAll_def addImport_Normal)

lemma set_setAdd: "set (setAdd f fs) = insert f (set fs)"
  by (auto simp: setAdd_def)

lemma keys_addAll: "fst ` set (addAll f cu ks) = fst ` set cu \<union> set ks"
  by (induction ks arbitrary: cu) (auto simp: addAll_def dom_update)

lemma instances_addAll:
  "set (instances (addAll f cu ks) k)
   = (if k \<in> set ks then insert f (set (instances cu k)) else set (instances cu k))"
  by (induction ks arbitrary: cu) (auto simp: addAll_def instances_update set_setAdd)

lemma findImports_Normal:
  assumes "set (importedNames content) \<inter> set objectPrototypeKeys = {}"
  shows "findImports content f cu = Some (Normal (addAll f cu (importedNames content)))"
  by (simp add: findImports_eq foldC_addImport [OF assms])

lemma prevAt_append_length:
  "prevAt p (u @ t) (length u) = (if u = [] then p else Some (last u))"
  by (cases u rule: rev_cases) (auto simp: prevAt_def)

lemma firstMatch_cat_Nil: "firstMatch (cat []) p s = Some (0, None)"
  by (simp add: firstMatch_def cat_def)

lemma firstMatch_Seq:
  assumes "firstMatch a p s = Some (n, g)"
    and "firstMatch b (prevAt p s n) (drop n s) = Some (m, h)"
  shows "firstMatch (Seq a b) p s = Some (n + m, orElse h g)"
proof -
  from assms obtain ra rb where
    a: "rmatch a p s = (n, g) # ra" and b: "rmatch b (prevAt p s n) (drop n s) = (m, h) # rb"
    by (auto simp: firstMatch_def split: list.splits)
  show ?thesis by (simp add: firstMatch_def a b orElse_def)
qed

lemma firstMatch_cat_Cons:
  assumes "firstMatch a p s = Some (n, g)"
    and "firstMatch (cat rs) (prevAt p s n) (drop n s) = Some (m, h)"
  shows "firstMatch (cat (a # rs)) p s = Some (n + m, orElse h g)"
  using firstMatch_Seq [OF assms(1), of "cat rs" m h] assms(2) by (simp add: cat_def)

lemma firstMatch_Lit: "firstMatch (Lit w) p (w @ t) = Some (length w, None)"
  by (simp add: firstMatch_def)

lemma runLen_append:
  assumes "list_all (inClass k) u" and "t = [] \<or> \<not> inClass k (hd t)"
  shows "runLen k (u @ t) = length u"
proof -
  from assms(2) have "takeWhile (inClass k) t = []" by (cases t) auto
  with assms(1) show ?thesis
    by (simp add: runLen_def takeWhile_append2 list_all_iff)
qed

lemma firstMatch_Many1:
  assumes "u \<noteq> []" "list_all (inClass k) u" "t = [] \<or> \<not> inClass k (hd t)"
  shows "firstMatch (Many1 k) p (u @ t) = Some (length u, None)"
proof -
  from assms(1) obtain n where n: "length u = Suc n" by (cases u) auto
  show ?thesis
    by (simp add: firstMatch_def runLen_append [OF assms(2,3)] n)
qed

lemma firstMatch_Many:
  assumes "list_all (inClass k) u" "t = [] \<or> \<not> inClass k (hd t)"
  shows "firstMatch (Many k) p (u @ t) = Some (length u, None)"
  by (simp add: firstMatch_def runLen_append [OF assms])

lemma firstMatch_Group:
  "firstMatch a p s = Some (n, g) \<Longrightarrow> firstMatch (Group a) p s = Some (n, Some (take n s))"
  by (auto simp: firstMatch_def split: list.splits)

lemma firstMatch_Cls: "inClass k c \<Longrightarrow> firstMatch (Cls k) p (c # t) = Some (1, None)"
  by (simp add: firstMatch_def)

lemma exec_firstMatch: "firstMatch r p s = Some (n, g) \<Longrightarrow> exec r p s = Some (0, n, g)"
  by (cases s) (auto simp: firstMatch_def split: list.splits)

lemma rmatch_Nil_minLen: "0 < minLen r \<Longrightarrow> rmatch r p [] = []"
proof (rule ccontr)
  assume m: "0 < minLen r" and "rmatch r p [] \<noteq> []"
  then obtain n g where x: "(n, g) \<in> set (rmatch r p [])" by (cases "rmatch r p []") auto
  from rmatch_le [OF x] rmatch_minLen [OF x] m show False by simp
qed

lemma execAll_whole:
  assumes "firstMatch r None s = Some (length s, g)" and "0 < minLen r"
  shows "execAll r None s = Some [(0, length s, g)]"
proof -
  from assms have "s \<noteq> []"
    using rmatch_Nil_minLen [OF assms(2), of None] by (auto simp: firstMatch_def)
  moreover have "execAll r q [] = Some []" for q
    using rmatch_Nil_minLen [OF assms(2)] by (simp add: execAll.simps)
  ultimately show ?thesis
    using exec_firstMatch [OF assms(1)] by (simp add: execAll.simps [of r None s])
qed

lemma captures_whole:
  assumes "firstMatch r None s = Some (length s, Some t)" and "0 < minLen r"
  shows "captures r s = [t]"
  by (simp add: captures_def execAll_whole [OF assms])

lemma fromTarget_tail:
  "firstMatch (cat fromTarget) p (''from \"your-package-name\"'') = Some (24, None)"
  by (simp add: firstMatch_def fromTarget_def cat_def targetPackageName_def space_def quote_def
      runLen_def prevAt_def isSpace_def)

lemma requireTarget_tail:
  "firstMatch (cat requireTarget) p (''= require(\"your-package-name\")'') = Some (30, None)"
  by (simp add: firstMatch_def requireTarget_def cat_def targetPackageName_def space_def quote_def
      runLen_def prevAt_def isSpace_def)

lemma firstMatch_cat_Lit:
  assumes "\<And>q. firstMatch (cat rs) q t = Some (m, h)"
  shows "firstMatch (cat (Lit w # rs)) p (w @ t) = Some (length w + m, h)"
  using firstMatch_cat_Cons [OF firstMatch_Lit, of rs p w t m h] assms
  by (simp add: orElse_def split: option.splits)

lemma firstMatch_cat_Many1:
  assumes "u \<noteq> []" "list_all (inClass k) u" "t = [] \<or> \<not> inClass k (hd t)"
    and "\<And>q. firstMatch (cat rs) q t = Some (m, h)"
  shows "firstMatch (cat (Many1 k # rs)) p (u @ t) = Some (length u + m, h)"
  using firstMatch_cat_Cons [OF firstMatch_Many1 [OF assms(1-3)], of rs p m h] assms(4)
  by (simp add: orElse_def split: option.splits)

lemma firstMatch_cat_GroupMany1:
  assumes "u \<noteq> []" "list_all (inClass k) u" "t = [] \<or> \<not> inClass k (hd t)"
    and "\<And>q. firstMatch (cat rs) q t = Some (m, None)"
  shows "firstMatch (cat (Group (Many1 k) # rs)) p (u @ t) = Some (length u + m, Some u)"
  using firstMatch_cat_Cons [OF firstMatch_Group [OF firstMatch_Many1 [OF assms(1-3)]], of rs p m None]
    assms(4)
  by (simp add: orElse_def)

lemma firstMatch_cat_GroupMany:
  assumes "list_all (inClass k) u" "t = [] \<or> \<not> inClass k (hd t)"
    and "\<And>q. firstMatch (cat rs) q t = Some (m, None)"
  shows "firstMatch (cat (Group (Many k) # rs)) p (u @ t) = Some (length u + m, Some u)"
  using firstMatch_cat_Cons [OF firstMatch_Group [OF firstMatch_Many [OF assms(1,2)]], of rs p m None]
    assms(3)
  by (simp add: orElse_def)

lemma firstMatch_declKeyword: "firstMatch declKeyword p (''const'' @ t) = Some (5, None)"
  by (simp add: firstMatch_def declKeyword_def)

lemma firstMatch_cat_declKeyword:
  assumes "\<And>q. firstMatch (cat rs) q t = Some (m, h)"
  shows "firstMatch (cat (declKeyword # rs)) p (''const'' @ t) = Some (5 + m, h)"
  using firstMatch_cat_Cons [OF firstMatch_declKeyword, of rs p t m h] assms
  by (simp add: orElse_def split: option.splits)

lemma space1: "'' '' \<noteq> [] \<and> list_all (inClass space) '' ''"
  by (simp add: space_def isSpace_def)

lemma not_space_f [simp]: "\<not> inClass space (CHR ''f'')" "\<not> inClass space (CHR ''='')"
  by (simp_all add: space_def isSpace_def)

lemma captures_default_idiom:
  assumes "bindingName X"
  shows "captures defaultImportPattern (''import '' @ X @ '' from \"your-package-name\"'') = [X]"
proof -
  let ?k = "NotIn [Ch (CHR ''{''), SpaceC]"
  from assms have X: "X \<noteq> []" "list_all (inClass ?k) X" by (auto simp: bindingName_def)
  have sp: "\<not> inClass space (hd X)" using X by (cases X) (auto simp: space_def)
  have t3: "firstMatch (cat (Many1 space # fromTarget)) q ('' '' @ ''from \"your-package-name\"'')
            = Some (1 + 24, None)" for q
    using firstMatch_cat_Many1 [of "'' ''" space "''from \"your-package-name\"''" fromTarget 24 None q]
      fromTarget_tail space1 by simp
  have t2: "firstMatch (cat (Group (Many1 ?k) # Many1 space # fromTarget)) q
              (X @ '' '' @ ''from \"your-package-name\"'') = Some (length X + 25, Some X)" for q
    using firstMatch_cat_GroupMany1 [OF X, of "'' '' @ ''from \"your-package-name\"''"
        "Many1 space # fromTarget" 25 q] t3 by (simp add: isSpace_def)
  have t1: "firstMatch (cat (Many1 space # Group (Many1 ?k) # Many1 space # fromTarget)) q
              ('' '' @ X @ '' '' @ ''from \"your-package-name\"'') = Some (1 + (length X + 25), Some X)" for q
    using firstMatch_cat_Many1 [of "'' ''" space "X @ '' '' @ ''from \"your-package-name\"''" _
        "length X + 25" "Some X" q] t2 space1 sp X(1) by simp
  have t0: "firstMatch defaultImportPattern None
              (''import'' @ '' '' @ X @ '' '' @ ''from \"your-package-name\"'')
            = Some (6 + (1 + (length X + 25)), Some X)"
    unfolding defaultImportPattern_def append_Cons append_Nil
    using firstMatch_cat_Lit [of _ "'' '' @ X @ '' '' @ ''from \"your-package-name\"''"
        "1 + (length X + 25)" "Some X" "''import''" None] t1 by simp
  have "captures defaultImportPattern (''import'' @ '' '' @ X @ '' '' @ ''from \"your-package-name\"'') = [X]"
    by (rule captures_whole) (use t0 in \<open>simp_all add: import_patterns_ok\<close>)
  then show ?thesis by simp
qed

lemma captures_requireDefault_idiom:
  assumes "bindingName X"
  shows "captures requireDefaultPattern (''const '' @ X @ '' = require(\"your-package-name\")'') = [X]"
proof -
  let ?k = "NotIn [Ch (CHR ''{''), SpaceC]"
  let ?tail = "''= require(\"your-package-name\")''"
  from assms have X: "X \<noteq> []" "list_all (inClass ?k) X" by (auto simp: bindingName_def)
  have sp: "\<not> inClass space (hd X)" using X by (cases X) (auto simp: space_def)
  have t3: "firstMatch (cat (Many1 space # requireTarget)) q ('' '' @ ?tail) = Some (1 + 30, None)" for q
    using firstMatch_cat_Many1 [of "'' ''" space ?tail requireTarget 30 None q]
      requireTarget_tail space1 by simp
  have t2: "firstMatch (cat (Group (Many1 ?k) # Many1 space # requireTarget)) q
              (X @ '' '' @ ?tail) = Some (length X + 31, Some X)" for q
    using firstMatch_cat_GroupMany1 [OF X, of "'' '' @ ?tail" "Many1 space # requireTarget" 31 q] t3
    by (simp add: isSpace_def)
  have t1: "firstMatch (cat (Many1 space # Group (Many1 ?k) # Many1 space # requireTarget)) q
              ('' '' @ X @ '' '' @ ?tail) = Some (1 + (length X + 31), Some X)" for q
    using firstMatch_cat_Many1 [of "'' ''" space "X @ '' '' @ ?tail" _
        "length X + 31" "Some X" q] t2 space1 sp X(1) by simp
  have t0: "firstMatch requireDefaultPattern None (''const'' @ '' '' @ X @ '' '' @ ?tail)
            = Some (5 + (1 + (length X + 31)), Some X)"
    unfolding requireDefaultPattern_def append_Cons append_Nil
    using firstMatch_cat_declKeyword [of _ "'' '' @ X @ '' '' @ ?tail"
        "1 + (length X + 31)" "Some X" None] t1 by simp
  have "captures requireDefaultPattern (''const'' @ '' '' @ X @ '' '' @ ?tail) = [X]"
    by (rule captures_whole) (use t0 in \<open>simp_all add: import_patterns_ok\<close>)
  then show ?thesis by simp
qed

lemma captures_named_idiom:
  assumes "CHR ''}'' \<notin> set g"
  shows "captures namedImportPattern (''import {'' @ g @ ''} from \"your-package-name\"'') = [g]"
proof -
  let ?k = "NotIn [Ch (CHR ''}'')]"
  let ?tail = "''from \"your-package-name\"''"
  from assms have g: "list_all (inClass ?k) g" by (auto simp: list_all_iff)
  have t4: "firstMatch (cat (Lit ''}'' # Many1 space # fromTarget)) q (''}'' @ '' '' @ ?tail)
            = Some (1 + (1 + 24), None)" for q
    using firstMatch_cat_Lit [of "Many1 space # fromTarget" "'' '' @ ?tail" "1 + 24" None "''}''" q]
      firstMatch_cat_Many1 [of "'' ''" space ?tail fromTarget 24 None]
      fromTarget_tail space1 by simp
  have t3: "firstMatch (cat (Group (Many ?k) # Lit ''}'' # Many1 space # fromTarget)) q
              (g @ ''}'' @ '' '' @ ?tail) = Some (length g + 26, Some g)" for q
    using firstMatch_cat_GroupMany [OF g, of "''}'' @ '' '' @ ?tail"
        "Lit ''}'' # Many1 space # fromTarget" 26 q] t4 by simp
  have t2: "firstMatch (cat (Lit ''{'' # Group (Many ?k) # Lit ''}'' # Many1 space # fromTarget)) q
              (''{'' @ g @ ''}'' @ '' '' @ ?tail) = Some (1 + (length g + 26), Some g)" for q
    using firstMatch_cat_Lit [of _ "g @ ''}'' @ '' '' @ ?tail" "length g + 26" "Some g" "''{''" q] t3
    by simp
  have t1: "firstMatch (cat (Many1 space # Lit ''{'' # Group (Many ?k) # Lit ''}'' # Many1 space
                # fromTarget)) q
              ('' '' @ ''{'' @ g @ ''}'' @ '' '' @ ?tail) = Some (1 + (1 + (length g + 26)), Some g)" for q
    using firstMatch_cat_Many1 [of "'' ''" space "''{'' @ g @ ''}'' @ '' '' @ ?tail" _
        "1 + (length g + 26)" "Some g" q] t2 space1 by (simp add: space_def isSpace_def)
  have t0: "firstMatch namedImportPattern None
              (''import'' @ '' '' @ ''{'' @ g @ ''}'' @ '' '' @ ?tail)
            = Some (6 + (1 + (1 + (length g + 26))), Some g)"
    unfolding namedImportPattern_def append_Cons append_Nil
    using firstMatch_cat_Lit [of _ "'' '' @ ''{'' @ g @ ''}'' @ '' '' @ ?tail"
        "1 + (1 + (length g + 26))" "Some g" "''import''" None] t1 by simp
  have "captures namedImportPattern (''import'' @ '' '' @ ''{'' @ g @ ''}'' @ '' '' @ ?tail) = [g]"
    by (rule captures_whole) (use t0 in \<open>simp_all add: import_patterns_ok\<close>)
  then show ?thesis by simp
qed

lemma captures_require_idiom:
  assumes "CHR ''}'' \<notin> set g"
  shows "captures requirePattern (''const {'' @ g @ ''} = require(\"your-package-name\")'') = [g]"
proof -
  let ?k = "NotIn [Ch (CHR ''}'')]"
  let ?tail = "''= require(\"your-package-name\")''"
  from assms have g: "list_all (inClass ?k) g" by (auto simp: list_all_iff)
  have t4: "firstMatch (cat (Lit ''}'' # Many1 space # requireTarget)) q (''}'' @ '' '' @ ?tail)
            = Some (1 + (1 + 30), None)" for q
    using firstMatch_cat_Lit [of "Many1 space # requireTarget" "'' '' @ ?tail" "1 + 30" None "''}''" q]
      firstMatch_cat_Many1 [of "'' ''" space ?tail requireTarget 30 None]
      requireTarget_tail space1 by simp
  have t3: "firstMatch (cat (Group (Many ?k) # Lit ''}'' # Many1 space # requireTarget)) q
              (g @ ''}'' @ '' '' @ ?tail) = Some (length g + 32, Some g)" for q
    using firstMatch_cat_GroupMany [OF g, of "''}'' @ '' '' @ ?tail"
        "Lit ''}'' # Many1 space # requireTarget" 32 q] t4 by simp
  have t2: "firstMatch (cat (Lit ''{'' # Group (Many ?k) # Lit ''}'' # Many1 space # requireTarget)) q
              (''{'' @ g @ ''}'' @ '' '' @ ?tail) = Some (1 + (length g + 32), Some g)" for q
    using firstMatch_cat_Lit [of _ "g @ ''}'' @ '' '' @ ?tail" "length g + 32" "Some g" "''{''" q] t3
    by simp
  have t1: "firstMatch (cat (Many1 space # Lit ''{'' # Group (Many ?k) # Lit ''}'' # Many1 space
                # requireTarget)) q
              ('' '' @ ''{'' @ g @ ''}'' @ '' '' @ ?tail) = Some (1 + (1 + (length g + 32)), Some g)" for q
    using firstMatch_cat_Many1 [of "'' ''" space "''{'' @ g @ ''}'' @ '' '' @ ?tail" _
        "1 + (length g + 32)" "Some g" q] t2 space1 by (simp add: space_def isSpace_def)
  have t0: "firstMatch requirePattern None
              (''const'' @ '' '' @ ''{'' @ g @ ''}'' @ '' '' @ ?tail)
            = Some (5 + (1 + (1 + (length g + 32))), Some g)"
    unfolding requirePattern_def append_Cons append_Nil
    using firstMatch_cat_declKeyword [of _ "'' '' @ ''{'' @ g @ ''}'' @ '' '' @ ?tail"
        "1 + (1 + (length g + 32))" "Some g" None] t1 by simp
  have "captures requirePattern (''const'' @ '' '' @ ''{'' @ g @ ''}'' @ '' '' @ ?tail) = [g]"
    by (rule captures_whole) (use t0 in \<open>simp_all add: import_patterns_ok\<close>)
  then show ?thesis by simp
qed

lemma bindingName_trim: "bindingName X \<Longrightarrow> trim X = X"
proof -
  assume b: "bindingName X"
  then have "X \<noteq> []" "\<not> isSpace (hd X)" "\<not> isSpace (last X)"
    by (auto simp: bindingName_def list_all_iff)
  with trim_pad [of "[]" "[]" X] show ?thesis by simp
qed

lemma in_importedNames:
  "k \<in> set (importedNames content) \<longleftrightarrow>
     k \<in> set (namedNames content) \<or> k \<in> set (defaultNames content)
     \<or> k \<in> set (namespaceNames content) \<or> k \<in> set (requireNames content)
     \<or> k \<in> set (requireDefaultNames content)"
  by (auto simp: importedNames_def)

lemma addAll_Nil [simp]: "addAll f cu [] = cu"
  by (simp add: addAll_def)

lemma prevAt_0 [simp]: "prevAt p s 0 = p"
  by (simp add: prevAt_def)

lemma prevAt_prevAt: "prevAt (prevAt p s k) (drop k s) j = prevAt p s (k + j)"
proof (cases "take j (drop k s)" rule: rev_cases)
  case Nil
  then have "take (k + j) s = take k s"
    by (metis append_Nil2 take_add)
  then show ?thesis unfolding prevAt_def Nil by simp
next
  case (snoc ys y)
  have "take (k + j) s = take k s @ take j (drop k s)" by (simp add: take_add)
  then show ?thesis unfolding prevAt_def snoc by simp
qed

lemma execAll_matchesOf: "0 < minLen r \<Longrightarrow> execAll r None content = Some (matchesOf r content)"
  using execAll_total [of r None content] by (auto simp: matchesOf_def)

lemma execAll_sound:
  "execAll r p s = Some ms \<Longrightarrow> (i, n, g) \<in> set ms \<Longrightarrow>
     i + n \<le> length s \<and> (\<exists>rest. rmatch r (prevAt p s i) (drop i s) = (n, g) # rest)"
proof (induction r p s arbitrary: ms i n g rule: execAll.induct)
  case (1 r p s)
  show ?case
  proof (cases "exec r p s")
    case None
    with 1(2,3) show ?thesis by (simp add: execAll.simps)
  next
    case (Some m)
    obtain i0 n0 g0 where m: "m = (i0, n0, g0)" by (cases m) auto
    note e = Some [unfolded m]
    from 1(2) e have n0: "n0 \<noteq> 0"
      by (auto simp: execAll.simps [of r p s] split: if_splits)
    from 1(2) e n0 obtain ms' where
      rec: "execAll r (prevAt p s (i0 + n0)) (drop (i0 + n0) s) = Some ms'" and
      ms: "ms = (i0, n0, g0) # map (\<lambda>(j, m, h). (i0 + n0 + j, m, h)) ms'"
      by (auto simp: execAll.simps [of r p s] split: option.splits)
    from 1(3) ms consider "(i, n, g) = (i0, n0, g0)"
      | j where "(j, n, g) \<in> set ms'" "i = i0 + n0 + j"
      by auto
    then show ?thesis
    proof cases
      case 1
      with exec_Some_hd [OF e] exec_le [OF e] show ?thesis by simp
    next
      case 2
      from "1.IH" [OF Some m [symmetric] refl n0 rec 2(1)]
      have a: "j + n \<le> length (drop (i0 + n0) s)"
        and b: "\<exists>rest. rmatch r (prevAt (prevAt p s (i0 + n0)) (drop (i0 + n0) s) j)
                  (drop j (drop (i0 + n0) s)) = (n, g) # rest"
        by auto
      from exec_le [OF e] a have "i + n \<le> length s" using 2(2) by simp
      moreover from b have "\<exists>rest. rmatch r (prevAt p s i) (drop i s) = (n, g) # rest"
        unfolding prevAt_prevAt 2(2) by (simp add: add.commute)
      ultimately show ?thesis by simp
    qed
  qed
qed

lemma matchesOf_sound:
  assumes "0 < minLen r" and "(i, n, g) \<in> set (matchesOf r content)"
  shows "i + n \<le> length content
         \<and> (\<exists>rest. rmatch r (prevAt None content i) (drop i content) = (n, g) # rest)"
  using execAll_sound [OF execAll_matchesOf [OF assms(1)] assms(2)] .

lemma rmatch_cat_Cons: "rmatch (cat (a # rs)) p s = rmatch (Seq a (cat rs)) p s"
  by (simp add: cat_def)

lemma rmatch_cat_Nil: "rmatch (cat []) p s = [(0, None)]"
  by (simp add: cat_def)

lemma rmatch_SeqD:
  assumes "(n, g) \<in> set (rmatch (Seq a b) p s)"
  obtains n1 g1 n2 g2 where "(n1, g1) \<in> set (rmatch a p s)"
    and "(n2, g2) \<in> set (rmatch b (prevAt p s n1) (drop n1 s))"
    and "n = n1 + n2" and "g = (case g2 of None \<Rightarrow> g1 | Some t \<Rightarrow> Some t)"
  using assms by auto

lemma rmatch_catD:
  assumes "(n, g) \<in> set (rmatch (cat (a # rs)) p s)"
  obtains n1 g1 n2 g2 where "(n1, g1) \<in> set (rmatch a p s)"
    and "(n2, g2) \<in> set (rmatch (cat rs) (prevAt p s n1) (drop n1 s))"
    and "n = n1 + n2" and "g = (case g2 of None \<Rightarrow> g1 | Some t \<Rightarrow> Some t)"
  using assms unfolding rmatch_cat_Cons by (rule rmatch_SeqD)

lemma rmatch_LitD:
  "(n, g) \<in> set (rmatch (Lit w) p s) \<Longrightarrow> take (length w) s = w \<and> n = length w \<and> g = None"
  by (auto split: if_splits)

lemma rmatch_NotBehindD:
  "(n, g) \<in> set (rmatch (NotBehind k) p s) \<Longrightarrow>
     n = 0 \<and> g = None \<and> (case p of None \<Rightarrow> True | Some c \<Rightarrow> \<not> inClass k c)"
  by (auto split: option.splits if_splits)

lemma rmatch_WordBD:
  "(n, g) \<in> set (rmatch WordB p s) \<Longrightarrow>
     n = 0 \<and> g = None \<and> isWordOpt p \<noteq> isWordOpt (case s of [] \<Rightarrow> None | c # _ \<Rightarrow> Some c)"
  by (auto split: if_splits)

lemma rmatch_NotAheadD:
  "(n, g) \<in> set (rmatch (NotAhead a) p s) \<Longrightarrow> n = 0 \<and> g = None \<and> rmatch a p s = []"
  by (auto split: if_splits)

lemma rmatch_GroupD:
  "(n, g) \<in> set (rmatch (Group a) p s) \<Longrightarrow> g = Some (take n s) \<and> (\<exists>h. (n, h) \<in> set (rmatch a p s))"
  by auto

lemma take_eq_append: "take (length w) s = w \<Longrightarrow> s = w @ drop (length w) s"
  by (metis append_take_drop_id)

lemma take_takeWhile_all:
  "n \<le> length (takeWhile P s) \<Longrightarrow> list_all P (take n s)"
proof (induction s arbitrary: n)
  case Nil
  then show ?case by simp
next
  case (Cons c cs)
  then show ?case by (cases n) (auto split: if_splits)
qed

lemma rmatch_ManyD:
  "(n, g) \<in> set (rmatch (Many k) p s) \<Longrightarrow> g = None \<and> list_all (inClass k) (take n s)"
  by (auto simp: runLen_def intro!: take_takeWhile_all)

lemma rmatch_ManyLazyD:
  "(n, g) \<in> set (rmatch (ManyLazy k) p s) \<Longrightarrow> g = None \<and> list_all (inClass k) (take n s)"
  by (auto simp: runLen_def intro!: take_takeWhile_all)

lemma rmatch_Many1D:
  "(n, g) \<in> set (rmatch (Many1 k) p s) \<Longrightarrow>
     g = None \<and> 0 < n \<and> list_all (inClass k) (take n s)"
  by (auto simp: runLen_def intro!: take_takeWhile_all)

lemma functionCall_rmatch:
  assumes "(n, g) \<in> set (rmatch (functionCallPattern S) p s)"
  shows "(case p of None \<Rightarrow> True | Some c \<Rightarrow> c \<noteq> CHR ''.'' \<and> c \<noteq> CHR ''<'')
         \<and> (\<exists>ws rest. s = S @ ws @ ''('' @ rest \<and> list_all isSpace ws
               \<and> n = length S + length ws + 1)
         \<and> (S \<noteq> [] \<and> list_all isWord S \<longrightarrow> \<not> isWordOpt p)"
proof -
  from assms(1) [unfolded functionCallPattern_def] obtain n1 g1 n2 g2 where
    a1: "(n1, g1) \<in> set (rmatch (NotBehind (In [Ch (CHR ''.''), Ch (CHR ''<'')])) p s)" and
    a2: "(n2, g2) \<in> set (rmatch (cat [WordB, Lit S, Many space, Lit ''(''])
                             (prevAt p s n1) (drop n1 s))" and
    n12: "n = n1 + n2"
    by (rule rmatch_catD)
  from rmatch_NotBehindD [OF a1] have n1: "n1 = 0"
    and nb: "case p of None \<Rightarrow> True | Some c \<Rightarrow> c \<noteq> CHR ''.'' \<and> c \<noteq> CHR ''<''"
    by (auto split: option.splits)
  from a2 n1 have a2': "(n2, g2) \<in> set (rmatch (cat [WordB, Lit S, Many space, Lit ''('']) p s)"
    by simp
  from a2' obtain n3 g3 n4 g4 where
    b1: "(n3, g3) \<in> set (rmatch WordB p s)" and
    b2: "(n4, g4) \<in> set (rmatch (cat [Lit S, Many space, Lit ''('']) (prevAt p s n3) (drop n3 s))"
    and n34: "n2 = n3 + n4"
    by (rule rmatch_catD)
  from rmatch_WordBD [OF b1] have n3: "n3 = 0"
    and wb: "isWordOpt p \<noteq> isWordOpt (case s of [] \<Rightarrow> None | c # _ \<Rightarrow> Some c)"
    by auto
  from b2 n3 have b2': "(n4, g4) \<in> set (rmatch (cat [Lit S, Many space, Lit ''('']) p s)" by simp
  from b2' obtain n5 g5 n6 g6 where
    c1: "(n5, g5) \<in> set (rmatch (Lit S) p s)" and
    c2: "(n6, g6) \<in> set (rmatch (cat [Many space, Lit ''(''])
                             (prevAt p s n5) (drop n5 s))" and
    n56: "n4 = n5 + n6"
    by (rule rmatch_catD)
  from rmatch_LitD [OF c1] have l: "take (length S) s = S" and n5: "n5 = length S" by auto
  let ?t = "drop (length S) s"
  from c2 n5 obtain k gk n7 g7 where
    d1: "(k, gk) \<in> set (rmatch (Many space) (prevAt p s (length S)) ?t)" and
    d2: "(n7, g7) \<in> set (rmatch (cat [Lit ''(''])
                             (prevAt (prevAt p s (length S)) ?t k) (drop k ?t))" and
    n67: "n6 = k + n7"
    by (auto elim: rmatch_catD)
  from rmatch_ManyD [OF d1] have k: "list_all isSpace (take k ?t)"
    by (simp add: space_def list_all_iff)
  from d2 obtain n8 g8 n9 g9 where
    e1: "(n8, g8) \<in> set (rmatch (Lit ''('') (prevAt (prevAt p s (length S)) ?t k) (drop k ?t))"
    and e2: "(n9, g9) \<in> set (rmatch (cat []) (prevAt (prevAt (prevAt p s (length S)) ?t k)
                               (drop k ?t) n8) (drop n8 (drop k ?t)))"
    and n89: "n7 = n8 + n9"
    by (rule rmatch_catD)
  from rmatch_LitD [OF e1] have p: "take 1 (drop k ?t) = ''(''" and n8: "n8 = 1" by auto
  from e2 have n9: "n9 = 0" by (simp add: rmatch_cat_Nil)
  have kl: "k < length ?t"
  proof (rule ccontr)
    assume "\<not> k < length ?t"
    then have "drop k ?t = []" by simp
    with p show False by simp
  qed
  have s1: "s = S @ ?t" using take_eq_append [OF l] .
  have s2: "?t = take k ?t @ drop k ?t" by (rule append_take_drop_id [symmetric])
  have s3: "drop k ?t = ''('' @ drop 1 (drop k ?t)"
    using append_take_drop_id [of 1 "drop k ?t"] unfolding p by (rule sym)
  have s: "s = S @ take k ?t @ ''('' @ drop 1 (drop k ?t)"
    using s1 s2 s3 by metis
  have w: "\<not> isWordOpt p" if "S \<noteq> []" "list_all isWord S"
  proof -
    from that l have "isWordOpt (case s of [] \<Rightarrow> None | c # _ \<Rightarrow> Some c)"
      by (cases S; cases s) (auto simp: isWordOpt_def)
    with wb show ?thesis by simp
  qed
  have "n = length S + length (take k ?t) + 1"
    using n12 n1 n34 n3 n56 n5 n67 n89 n8 n9 kl by simp
  with nb w show ?thesis using s k by blast
qed

lemma rmatch_no_group: "\<not> anyGroup r \<Longrightarrow> (n, g) \<in> set (rmatch r p s) \<Longrightarrow> g = None"
proof (induction r arbitrary: n g p s)
  case (Seq a b)
  from Seq.prems(2) obtain n1 g1 n2 g2 where
    a: "(n1, g1) \<in> set (rmatch a p s)" and
    b: "(n2, g2) \<in> set (rmatch b (prevAt p s n1) (drop n1 s))" and
    g: "g = (case g2 of None \<Rightarrow> g1 | Some t \<Rightarrow> Some t)"
    by (rule rmatch_SeqD)
  from Seq.prems(1) have "\<not> anyGroup a" "\<not> anyGroup b" by simp_all
  from Seq.IH(1) [OF this(1) a] Seq.IH(2) [OF this(2) b] g show ?case by simp
qed (auto split: if_splits option.splits list.splits)

lemma tagRest_nonempty:
  assumes "(n, g) \<in> set (rmatch (cat tagRest) p s)"
  shows "s \<noteq> [] \<and> g = None"
proof -
  have "0 < minLen (cat tagRest)" "\<not> anyGroup (cat tagRest)"
    by (simp_all add: tagRest_def cat_def)
  with rmatch_minLen [OF assms] rmatch_le [OF assms] rmatch_no_group [OF _ assms]
  show ?thesis by auto
qed

lemma notAhead_identChar:
  "rmatch (Cls identChar) p t = [] \<Longrightarrow> t \<noteq> [] \<Longrightarrow> \<exists>c rest. t = c # rest \<and> \<not> inClass identChar c"
  by (cases t) (auto split: if_splits)

lemma jsx_rmatch:
  assumes "(n, g) \<in> set (rmatch (jsxPattern S) p s)"
  shows "\<exists>c rest. s = ''<'' @ S @ c # rest \<and> \<not> inClass identChar c"
proof -
  from assms [unfolded jsxPattern_def append_Cons append_Nil] obtain n1 g1 n2 g2 where
    a1: "(n1, g1) \<in> set (rmatch (Lit ''<'') p s)" and
    a2: "(n2, g2) \<in> set (rmatch (cat (Lit S # NotAhead (Cls identChar)
            # NotAhead (Cls identChar) # tagRest)) (prevAt p s n1) (drop n1 s))"
    by (rule rmatch_catD)
  from rmatch_LitD [OF a1] have l1: "take 1 s = ''<''" and n1: "n1 = 1" by auto
  let ?s1 = "drop 1 s"
  from a2 n1 obtain n3 g3 n4 g4 where
    b1: "(n3, g3) \<in> set (rmatch (Lit S) (prevAt p s 1) ?s1)" and
    b2: "(n4, g4) \<in> set (rmatch (cat (NotAhead (Cls identChar) # NotAhead (Cls identChar)
            # tagRest)) (prevAt (prevAt p s 1) ?s1 n3) (drop n3 ?s1))"
    by (auto elim: rmatch_catD)
  from rmatch_LitD [OF b1] have l2: "take (length S) ?s1 = S" and n3: "n3 = length S" by auto
  let ?t = "drop (length S) ?s1"
  let ?q = "prevAt (prevAt p s 1) ?s1 (length S)"
  from b2 n3 obtain n5 g5 n6 g6 where
    c1: "(n5, g5) \<in> set (rmatch (NotAhead (Cls identChar)) ?q ?t)" and
    c2: "(n6, g6) \<in> set (rmatch (cat (NotAhead (Cls identChar) # tagRest))
            (prevAt ?q ?t n5) (drop n5 ?t))"
    by (auto elim: rmatch_catD)
  from rmatch_NotAheadD [OF c1] have n5: "n5 = 0" and na: "rmatch (Cls identChar) ?q ?t = []"
    by auto
  from c2 n5 obtain n7 g7 n8 g8 where
    d1: "(n7, g7) \<in> set (rmatch (NotAhead (Cls identChar)) ?q ?t)" and
    d2: "(n8, g8) \<in> set (rmatch (cat tagRest) (prevAt ?q ?t n7) (drop n7 ?t))"
    by (auto elim: rmatch_catD)
  from rmatch_NotAheadD [OF d1] have n7: "n7 = 0" by auto
  from d2 n7 have "(n8, g8) \<in> set (rmatch (cat tagRest) ?q ?t)" by simp
  from tagRest_nonempty [OF this] have "?t \<noteq> []" by simp
  from notAhead_identChar [OF na this] obtain c rest where
    t: "?t = c # rest" and c: "\<not> inClass identChar c" by blast
  have "s = take 1 s @ ?s1" by (rule append_take_drop_id [symmetric])
  also have "?s1 = take (length S) ?s1 @ ?t" by (rule append_take_drop_id [symmetric])
  finally have "s = ''<'' @ S @ c # rest" unfolding l1 l2 t by simp
  with c show ?thesis by blast
qed

lemma nsJSX_rmatch:
  assumes "(n, g) \<in> set (rmatch (namespaceJSXPattern a) p s)"
  shows "\<exists>m c rest. g = Some m \<and> m \<noteq> [] \<and> list_all (inClass memberChars) m
           \<and> s = ''<'' @ a @ ''.'' @ m @ c # rest \<and> \<not> inClass identChar c"
proof -
  from assms [unfolded namespaceJSXPattern_def append_Cons append_Nil] obtain n1 g1 n2 g2 where
    a1: "(n1, g1) \<in> set (rmatch (Lit ''<'') p s)" and
    a2: "(n2, g2) \<in> set (rmatch (cat (Lit a # Lit ''.'' # memberName
            # NotAhead (Cls identChar) # tagRest)) (prevAt p s n1) (drop n1 s))" and
    g: "g = (case g2 of None \<Rightarrow> g1 | Some t \<Rightarrow> Some t)"
    by (rule rmatch_catD)
  from rmatch_LitD [OF a1] have l1: "take 1 s = ''<''" and n1: "n1 = 1" by auto
  let ?s1 = "drop 1 s"
  from a2 n1 obtain n3 g3 n4 g4 where
    b1: "(n3, g3) \<in> set (rmatch (Lit a) (prevAt p s 1) ?s1)" and
    b2: "(n4, g4) \<in> set (rmatch (cat (Lit ''.'' # memberName # NotAhead (Cls identChar)
            # tagRest)) (prevAt (prevAt p s 1) ?s1 n3) (drop n3 ?s1))" and
    g2: "g2 = (case g4 of None \<Rightarrow> g3 | Some t \<Rightarrow> Some t)"
    by (auto elim: rmatch_catD)
  from rmatch_LitD [OF b1] have l2: "take (length a) ?s1 = a" and n3: "n3 = length a" by auto
  let ?s2 = "drop (length a) ?s1"
  let ?q2 = "prevAt (prevAt p s 1) ?s1 (length a)"
  from b2 n3 obtain n5 g5 n6 g6 where
    c1: "(n5, g5) \<in> set (rmatch (Lit ''.'') ?q2 ?s2)" and
    c2: "(n6, g6) \<in> set (rmatch (cat (memberName # NotAhead (Cls identChar) # tagRest))
            (prevAt ?q2 ?s2 n5) (drop n5 ?s2))" and
    g4: "g4 = (case g6 of None \<Rightarrow> g5 | Some t \<Rightarrow> Some t)"
    by (auto elim: rmatch_catD)
  from rmatch_LitD [OF c1] have l3: "take 1 ?s2 = ''.''" and n5: "n5 = 1" by auto
  let ?s3 = "drop 1 ?s2"
  let ?q3 = "prevAt ?q2 ?s2 1"
  from c2 n5 obtain k gk n7 g7 where
    d1: "(k, gk) \<in> set (rmatch memberName ?q3 ?s3)" and
    d2: "(n7, g7) \<in> set (rmatch (cat (NotAhead (Cls identChar) # tagRest))
            (prevAt ?q3 ?s3 k) (drop k ?s3))" and
    g6: "g6 = (case g7 of None \<Rightarrow> gk | Some t \<Rightarrow> Some t)"
    by (auto elim: rmatch_catD)
  from rmatch_GroupD [OF d1 [unfolded memberName_def]] obtain h where
    gk: "gk = Some (take k ?s3)" and
    m1: "(k, h) \<in> set (rmatch (Many1 memberChars) ?q3 ?s3)"
    by auto
  from rmatch_Many1D [OF m1] have k: "0 < k" "list_all (inClass memberChars) (take k ?s3)"
    by auto
  from rmatch_le [OF m1] have kl: "k \<le> length ?s3" .
  let ?t = "drop k ?s3"
  let ?q = "prevAt ?q3 ?s3 k"
  from d2 obtain n8 g8 n9 g9 where
    e1: "(n8, g8) \<in> set (rmatch (NotAhead (Cls identChar)) ?q ?t)" and
    e2: "(n9, g9) \<in> set (rmatch (cat tagRest) (prevAt ?q ?t n8) (drop n8 ?t))" and
    g7: "g7 = (case g9 of None \<Rightarrow> g8 | Some t \<Rightarrow> Some t)"
    by (rule rmatch_catD)
  from rmatch_NotAheadD [OF e1] have n8: "n8 = 0" and g8: "g8 = None"
    and na: "rmatch (Cls identChar) ?q ?t = []" by auto
  from e2 n8 have "(n9, g9) \<in> set (rmatch (cat tagRest) ?q ?t)" by simp
  from tagRest_nonempty [OF this] have tn: "?t \<noteq> []" and g9: "g9 = None" by auto
  from notAhead_identChar [OF na tn] obtain c rest where
    t: "?t = c # rest" and c: "\<not> inClass identChar c" by blast
  have gm: "g = Some (take k ?s3)" using g g2 g4 g6 g7 g8 g9 gk by simp
  have mne: "take k ?s3 \<noteq> []" using k(1) kl tn by (cases ?s3) auto
  have "s = take 1 s @ ?s1" by (rule append_take_drop_id [symmetric])
  also have "?s1 = take (length a) ?s1 @ ?s2" by (rule append_take_drop_id [symmetric])
  also have "?s2 = take 1 ?s2 @ ?s3" by (rule append_take_drop_id [symmetric])
  also have "?s3 = take k ?s3 @ ?t" by (rule append_take_drop_id [symmetric])
  finally have "s = ''<'' @ a @ ''.'' @ take k ?s3 @ c # rest" unfolding l1 l2 l3 t by simp
  with c gm mne k(2) show ?thesis by blast
qed

lemma usage_patterns_ok:
  "0 < minLen (jsxPattern c)" "0 < minLen (functionCallPattern c)"
  "0 < minLen (namespaceJSXPattern c)" "0 < minLen (namespaceFuncPattern c)"
  by (simp_all add: jsxPattern_def functionCallPattern_def namespaceJSXPattern_def
      namespaceFuncPattern_def cat_def tagRest_def memberName_def)

lemma instances_pushInstance:
  "instances (pushInstance f k t) k' = (if k' = k then instances t k @ [f] else instances t k')"
  by (simp add: pushInstance_def instances_update)

lemma instances_funpow:
  "instances ((pushInstance f k ^^ n) t) k'
   = (if k' = k then instances t k @ replicate n f else instances t k')"
proof (induction n)
  case 0
  then show ?case by simp
next
  case (Suc n)
  then show ?case
    by (auto simp: instances_pushInstance replicate_append_same)
qed

lemma instances_foldl_push:
  "instances (foldl (\<lambda>t k. pushInstance f k t) t ks) k'
   = instances t k' @ replicate (count_list ks k') f"
proof (induction ks arbitrary: t)
  case Nil
  then show ?case by simp
next
  case (Cons k ks)
  then show ?case
    by (simp add: instances_pushInstance replicate_append_same [symmetric] del: replicate_Suc)
      (simp add: replicate_append_same)
qed

lemma plainUsages_eq:
  "plainUsages content f c st =
     Some (st\<lparr>componentInstancesJSX :=
                 (pushInstance f c ^^ length (jsxMatches content c)) (componentInstancesJSX st),
               componentInstancesFunc :=
                 (if f \<in> set (instances ((pushInstance f c ^^ length (jsxMatches content c))
                                           (componentInstancesJSX st)) c)
                  then componentInstancesFunc st
                  else (pushInstance f c ^^ length (callMatches content c))
                         (componentInstancesFunc st))\<rparr>)"
  by (simp add: plainUsages_def extractJSXUsage_def execAll_matchesOf usage_patterns_ok
      jsxMatches_def callMatches_def Let_def)

lemma namespaceUsages_eq:
  "namespaceUsages content f a st =
     Some (st\<lparr>componentInstancesJSX :=
                 foldl (\<lambda>t k. pushInstance f k t) (componentInstancesJSX st) (nsJSXNames content a),
               componentInstancesFunc :=
                 foldl (\<lambda>t k. pushInstance f k t) (componentInstancesFunc st)
                   (filter (\<lambda>k. k \<notin> set (nsJSXNames content a)) (nsCallNames content a))\<rparr>)"
  by (simp add: namespaceUsages_def execAll_matchesOf usage_patterns_ok
      nsJSXNames_def nsCallNames_def Let_def)

lemma prevAt_after: "prevAt p (u @ [c] @ v) (length u + 1) = Some c"
  by (simp add: prevAt_def)

lemma jsx_sound:
  assumes "(i, n, g) \<in> set (jsxMatches src S)"
  shows "openTagAt S src i"
proof -
  from matchesOf_sound [OF usage_patterns_ok(1) assms [unfolded jsxMatches_def]]
  obtain rest where "rmatch (jsxPattern S) (prevAt None src i) (drop i src) = (n, g) # rest"
    by blast
  then have "(n, g) \<in> set (rmatch (jsxPattern S) (prevAt None src i) (drop i src))" by simp
  from jsx_rmatch [OF this] show ?thesis by (simp add: openTagAt_def)
qed

lemma nsJSX_sound:
  assumes "(i, n, g) \<in> set (matchesOf (namespaceJSXPattern a) src)"
  shows "\<exists>m. g = Some m \<and> m \<noteq> [] \<and> list_all (inClass memberChars) m
           \<and> openTagAt (a @ ''.'' @ m) src i"
proof -
  from matchesOf_sound [OF usage_patterns_ok(3) assms]
  obtain rest where "rmatch (namespaceJSXPattern a) (prevAt None src i) (drop i src) = (n, g) # rest"
    by blast
  then have "(n, g) \<in> set (rmatch (namespaceJSXPattern a) (prevAt None src i) (drop i src))" by simp
  from nsJSX_rmatch [OF this] show ?thesis by (auto simp: openTagAt_def)
qed

lemma not_isWord_tag [simp]: "\<not> isWord (CHR ''/'')" "\<not> isWord (CHR ''<'')"
  by (simp_all add: isWord_def)

lemma wordName_hd: "wordName S \<Longrightarrow> \<exists>c cs. S = c # cs \<and> isWord c"
  by (cases S) (auto simp: wordName_def)

lemma not_open_at_closing:
  assumes "wordName S"
  shows "\<not> openTagAt (S @ ext) (pre @ ''</'' @ S @ post) (length pre)"
proof
  assume "openTagAt (S @ ext) (pre @ ''</'' @ S @ post) (length pre)"
  then obtain c rest where "''</'' @ S @ post = ''<'' @ (S @ ext) @ c # rest"
    by (auto simp: openTagAt_def)
  with wordName_hd [OF assms] show False by auto
qed

lemma not_open_before_ident:
  assumes "inClass identChar c"
  shows "\<not> openTagAt S (pre @ ''<'' @ S @ c # post) (length pre)"
  using assms by (auto simp: openTagAt_def)

lemma drop_hd_in_set: "drop i s = c # rest \<Longrightarrow> 0 < i \<Longrightarrow> c \<in> set (tl s)"
proof -
  assume d: "drop i s = c # rest" and i: "0 < i"
  then obtain j where j: "i = Suc j" by (cases i) auto
  with d have "drop j (tl s) = c # rest" by (simp add: drop_Suc)
  then have "c \<in> set (drop j (tl s))" by simp
  then show ?thesis by (rule in_set_dropD)
qed

lemma no_jsx_in_closing_tag:
  assumes "wordName S"
  shows "jsxMatches (''</'' @ S @ ''>'') S = []"
proof (rule ccontr)
  assume "jsxMatches (''</'' @ S @ ''>'') S \<noteq> []"
  then obtain i n g where m: "(i, n, g) \<in> set (jsxMatches (''</'' @ S @ ''>'') S)"
    by (cases "jsxMatches (''</'' @ S @ ''>'') S") auto
  from jsx_sound [OF m] obtain c rest where
    d: "drop i (''</'' @ S @ ''>'') = ''<'' @ S @ c # rest"
    by (auto simp: openTagAt_def)
  show False
  proof (cases "i = 0")
    case True
    with d wordName_hd [OF assms] show False by auto
  next
    case False
    with d have "CHR ''<'' \<in> set (tl (''</'' @ S @ ''>''))"
      using drop_hd_in_set [of i "''</'' @ S @ ''>''" "CHR ''<''" "S @ c # rest"] by simp
    then have "CHR ''<'' \<in> set S" by simp
    with assms show False by (auto dest: word_set)
  qed
qed

lemma usagesOf_effect:
  "\<exists>st'. usagesOf content f c st = Some st'
     \<and> componentUsage st' = componentUsage st
     \<and> (\<forall>k. instances (componentInstancesJSX st') k
            = instances (componentInstancesJSX st) k @ replicate (jsxDelta content c k) f)
     \<and> (\<forall>k. instances (componentInstancesFunc st') k
            = instances (componentInstancesFunc st) k
              @ replicate (funcDelta content f (componentInstancesJSX st) c k) f)"
proof (cases "startsWith c ''*''")
  case True
  then show ?thesis
    by (simp add: usagesOf_def namespaceUsages_eq instances_foldl_push jsxDelta_def funcDelta_def)
next
  case False
  then show ?thesis
    by (auto simp: usagesOf_def plainUsages_eq instances_funpow jsxDelta_def funcDelta_def)
qed

lemma forKeys_total_cu:
  "\<exists>st'. forKeys (usagesOf content f) ks st = Some st' \<and> componentUsage st' = componentUsage st"
proof (induction ks arbitrary: st)
  case Nil
  then show ?case by simp
next
  case (Cons c ks)
  from usagesOf_effect [of content f c st] obtain st1 where
    1: "usagesOf content f c st = Some st1" "componentUsage st1 = componentUsage st" by blast
  from Cons [of st1] 1 show ?case by auto
qed

lemma forKeys_grow:
  assumes "forKeys (usagesOf content f) ks st = Some st'"
  shows "(\<exists>n. instances (componentInstancesJSX st') k
               = instances (componentInstancesJSX st) k @ replicate n f)
         \<and> (\<exists>m. instances (componentInstancesFunc st') k
               = instances (componentInstancesFunc st) k @ replicate m f)"
  using assms
proof (induction ks arbitrary: st)
  case Nil
  then show ?case by simp
next
  case (Cons c ks)
  from usagesOf_effect [of content f c st] obtain st1 where
    1: "usagesOf content f c st = Some st1"
    and j: "instances (componentInstancesJSX st1) k
            = instances (componentInstancesJSX st) k @ replicate (jsxDelta content c k) f"
    and u: "instances (componentInstancesFunc st1) k
            = instances (componentInstancesFunc st) k
              @ replicate (funcDelta content f (componentInstancesJSX st) c k) f"
    by blast
  from Cons.prems 1 have "forKeys (usagesOf content f) ks st1 = Some st'" by simp
  from Cons.IH [OF this] obtain n m where
    "instances (componentInstancesJSX st') k = instances (componentInstancesJSX st1) k @ replicate n f"
    "instances (componentInstancesFunc st') k = instances (componentInstancesFunc st1) k @ replicate m f"
    by blast
  with j u show ?case by (auto simp: replicate_add [symmetric] simp del: replicate_add)
qed

lemma fullComponentName_dot: "CHR ''.'' \<in> set (fullComponentName a g)"
  by (simp add: fullComponentName_def)

lemma nsNames_dot:
  "k \<in> set (nsJSXNames content a) \<Longrightarrow> CHR ''.'' \<in> set k"
  "k \<in> set (nsCallNames content a) \<Longrightarrow> CHR ''.'' \<in> set k"
  by (auto simp: nsJSXNames_def nsCallNames_def fullComponentName_dot)

lemma word_plain: "list_all isWord S \<Longrightarrow> \<not> startsWith S ''*'' \<and> CHR ''.'' \<notin> set S"
  by (cases S) (auto simp: startsWith_def list_all_iff isWord_def Let_def)

lemma delta_other:
  assumes "list_all isWord S" and "c \<noteq> S"
  shows "jsxDelta content c S = 0" and "funcDelta content f jsx c S = 0"
proof -
  from word_plain [OF assms(1)] have nd: "CHR ''.'' \<notin> set S" by simp
  show "jsxDelta content c S = 0"
    using assms(2) nd nsNames_dot(1) [of S content "drop 1 c"]
    by (auto simp: jsxDelta_def count_list_0_iff)
  show "funcDelta content f jsx c S = 0"
    using assms(2) nd nsNames_dot(2) [of S content "drop 1 c"]
    by (auto simp: funcDelta_def count_list_0_iff)
qed

lemma forKeys_plain:
  assumes "list_all isWord S" and "distinct ks" and "forKeys (usagesOf content f) ks st = Some st'"
  shows "instances (componentInstancesJSX st') S
         = instances (componentInstancesJSX st) S
           @ (if S \<in> set ks then replicate (length (jsxMatches content S)) f else [])"
    and "instances (componentInstancesFunc st') S
         = instances (componentInstancesFunc st) S
           @ (if S \<in> set ks \<and> f \<notin> set (instances (componentInstancesJSX st) S)
                 \<and> jsxMatches content S = []
              then replicate (length (callMatches content S)) f else [])"
  using assms(2,3)
proof (induction ks arbitrary: st)
  case Nil
  {
    case 1 then show ?case by simp
  next
    case 2 then show ?case by simp
  }
next
  case (Cons c ks)
  from word_plain [OF assms(1)] have pl: "\<not> startsWith S ''*''" by simp
  {
    fix st assume d: "distinct (c # ks)" and r: "forKeys (usagesOf content f) (c # ks) st = Some st'"
    from usagesOf_effect [of content f c st] obtain st1 where
      1: "usagesOf content f c st = Some st1"
      and j: "instances (componentInstancesJSX st1) S
              = instances (componentInstancesJSX st) S @ replicate (jsxDelta content c S) f"
      and u: "instances (componentInstancesFunc st1) S
              = instances (componentInstancesFunc st) S
                @ replicate (funcDelta content f (componentInstancesJSX st) c S) f"
      by blast
    from r 1 have r1: "forKeys (usagesOf content f) ks st1 = Some st'" by simp
    from d have dk: "distinct ks" by simp
    note ih = Cons.IH(1) [OF dk r1] Cons.IH(2) [OF dk r1]
    have "instances (componentInstancesJSX st') S
         = instances (componentInstancesJSX st) S
           @ (if S \<in> set (c # ks) then replicate (length (jsxMatches content S)) f else [])
       \<and> instances (componentInstancesFunc st') S
         = instances (componentInstancesFunc st) S
           @ (if S \<in> set (c # ks) \<and> f \<notin> set (instances (componentInstancesJSX st) S)
                 \<and> jsxMatches content S = []
              then replicate (length (callMatches content S)) f else [])"
    proof (cases "c = S")
      case True
      with d have "S \<notin> set ks" by simp
      with ih j u True pl show ?thesis
        by (simp add: jsxDelta_def funcDelta_def)
    next
      case False
      from delta_other [OF assms(1) False] j u
      have "instances (componentInstancesJSX st1) S = instances (componentInstancesJSX st) S"
        "instances (componentInstancesFunc st1) S = instances (componentInstancesFunc st) S"
        by simp_all
      with ih False show ?thesis by simp
    qed
  }
  note step = this
  {
    case 1 from step [OF 1] show ?case by simp
  next
    case 2 from step [OF 2] show ?case by simp
  }
qed

lemma set_objectKeys: "set (objectKeys t) = fst ` set t"
  by (auto simp: objectKeys_def Let_def)

lemma distinct_objectKeys: "distinct (map fst t) \<Longrightarrow> distinct (objectKeys t)"
  by (auto simp: objectKeys_def Let_def)

lemma addImport_tableOf:
  "distinct (map fst cu) \<Longrightarrow> distinct (map fst (tableOf (addImport f cu k)))"
  "fst ` set cu \<subseteq> fst ` set (tableOf (addImport f cu k))"
  by (auto simp: addImport_def tableOf_def distinct_update dom_update split: property.splits)

lemma foldC_tableOf:
  "tableOf (foldC body st (x # xs))
   = (case body st x of Normal st' \<Rightarrow> tableOf (foldC body st' xs) | Thrown st' \<Rightarrow> st')"
  by (simp add: tableOf_def split: completion.splits)

lemma foldC_addImport_inv:
  "distinct (map fst cu) \<Longrightarrow> distinct (map fst (tableOf (foldC (addImport f) cu ks)))"
proof (induction ks arbitrary: cu)
  case Nil
  then show ?case by (simp add: tableOf_def)
next
  case (Cons k ks)
  show ?case
  proof (cases "addImport f cu k")
    case (Normal cu1)
    with addImport_tableOf(1) [OF Cons.prems, of f k] have "distinct (map fst cu1)"
      by (simp add: tableOf_def)
    from Cons.IH [OF this] Normal show ?thesis by (simp add: foldC_tableOf)
  next
    case (Thrown cu1)
    with addImport_tableOf(1) [OF Cons.prems, of f k] show ?thesis
      by (simp add: foldC_tableOf tableOf_def)
  qed
qed

lemma foldC_addImport_mono:
  "fst ` set cu \<subseteq> fst ` set (tableOf (foldC (addImport f) cu ks))"
proof (induction ks arbitrary: cu)
  case Nil
  then show ?case by (simp add: tableOf_def)
next
  case (Cons k ks)
  show ?case
  proof (cases "addImport f cu k")
    case (Normal cu1)
    with addImport_tableOf(2) [of cu f k] have "fst ` set cu \<subseteq> fst ` set cu1"
      by (simp add: tableOf_def)
    with Cons.IH [of cu1] Normal show ?thesis by (auto simp: foldC_tableOf)
  next
    case (Thrown cu1)
    with addImport_tableOf(2) [of cu f k] show ?thesis
      by (simp add: foldC_tableOf tableOf_def)
  qed
qed

lemma findComponentUsages_total:
  "\<exists>st'. findComponentUsages content f st = Some st' \<and> componentUsage st' = componentUsage st"
  unfolding findComponentUsages_def by (rule forKeys_total_cu)

lemma processFile_total:
  "\<exists>st'. processFile file st = Some st'
      \<and> componentUsage st'
          = (case snd file of
               None \<Rightarrow> componentUsage st
             | Some content \<Rightarrow>
                 tableOf (foldC (addImport (fst file)) (componentUsage st) (importedNames content)))"
proof (cases "snd file")
  case None
  then show ?thesis by (simp add: processFile_def)
next
  case (Some content)
  let ?r = "foldC (addImport (fst file)) (componentUsage st) (importedNames content)"
  show ?thesis
  proof (cases ?r)
    case (Normal cu)
    from findComponentUsages_total [of content "fst file" "st\<lparr>componentUsage := cu\<rparr>"]
    show ?thesis using Some Normal
      by (auto simp: processFile_def findImports_eq tableOf_def)
  next
    case (Thrown cu)
    then show ?thesis using Some by (simp add: processFile_def findImports_eq tableOf_def)
  qed
qed

lemma processFile_grow:
  assumes "processFile file st = Some st'"
  shows "(\<exists>n. instances (componentInstancesJSX st') k
               = instances (componentInstancesJSX st) k @ replicate n (fst file))
         \<and> (\<exists>m. instances (componentInstancesFunc st') k
               = instances (componentInstancesFunc st) k @ replicate m (fst file))"
proof (cases "snd file")
  case None
  with assms show ?thesis by (simp add: processFile_def)
next
  case (Some content)
  let ?r = "foldC (addImport (fst file)) (componentUsage st) (importedNames content)"
  show ?thesis
  proof (cases ?r)
    case (Normal cu)
    show ?thesis
    proof (cases "0 < length (objectKeys cu)")
      case True
      with assms Some Normal
      have "forKeys (usagesOf content (fst file)) (objectKeys cu) (st\<lparr>componentUsage := cu\<rparr>) = Some st'"
        by (simp add: processFile_def findImports_eq findComponentUsages_def)
      from forKeys_grow [OF this, of k] show ?thesis by simp
    next
      case False
      with assms Some Normal have "st' = st\<lparr>componentUsage := cu\<rparr>"
        by (simp add: processFile_def findImports_eq)
      then show ?thesis by simp
    qed
  next
    case (Thrown cu)
    with assms Some have "st' = st\<lparr>componentUsage := cu\<rparr>"
      by (simp add: processFile_def findImports_eq)
    then show ?thesis by simp
  qed
qed

lemma processFile_plain:
  assumes "list_all isWord S" and "distinct (map fst (componentUsage st))"
    and "processFile (f, Some content) st = Some st'"
    and "set (importedNames content) \<inter> set objectPrototypeKeys = {}"
  shows "instances (componentInstancesJSX st') S
         = instances (componentInstancesJSX st) S
           @ (if S \<in> fst ` set (componentUsage st) \<union> set (importedNames content)
              then replicate (length (jsxMatches content S)) f else [])"
    and "instances (componentInstancesFunc st') S
         = instances (componentInstancesFunc st) S
           @ (if S \<in> fst ` set (componentUsage st) \<union> set (importedNames content)
                 \<and> f \<notin> set (instances (componentInstancesJSX st) S)
                 \<and> jsxMatches content S = []
              then replicate (length (callMatches content S)) f else [])"
proof -
  let ?cu = "addAll f (componentUsage st) (importedNames content)"
  have fi: "findImports content f (componentUsage st) = Some (Normal ?cu)"
    by (rule findImports_Normal [OF assms(4)])
  have keys: "set (objectKeys ?cu) = fst ` set (componentUsage st) \<union> set (importedNames content)"
    by (simp add: set_objectKeys keys_addAll)
  have "distinct (map fst (tableOf (foldC (addImport f) (componentUsage st) (importedNames content))))"
    by (rule foldC_addImport_inv [OF assms(2)])
  then have d: "distinct (objectKeys ?cu)"
    by (simp add: foldC_addImport [OF assms(4)] tableOf_def distinct_objectKeys)
  have "instances (componentInstancesJSX st') S
         = instances (componentInstancesJSX st) S
           @ (if S \<in> set (objectKeys ?cu)
              then replicate (length (jsxMatches content S)) f else [])
     \<and> instances (componentInstancesFunc st') S
         = instances (componentInstancesFunc st) S
           @ (if S \<in> set (objectKeys ?cu)
                 \<and> f \<notin> set (instances (componentInstancesJSX st) S)
                 \<and> jsxMatches content S = []
              then replicate (length (callMatches content S)) f else [])"
  proof (cases "0 < length (objectKeys ?cu)")
    case True
    with assms(3) fi
    have r: "forKeys (usagesOf content f) (objectKeys ?cu) (st\<lparr>componentUsage := ?cu\<rparr>) = Some st'"
      by (simp add: processFile_def findComponentUsages_def)
    from forKeys_plain [OF assms(1) d r] show ?thesis by simp
  next
    case False
    with assms(3) fi have "st' = st\<lparr>componentUsage := ?cu\<rparr>" by (simp add: processFile_def)
    moreover from False have "S \<notin> set (objectKeys ?cu)" by simp
    ultimately show ?thesis by simp
  qed
  with keys show "instances (componentInstancesJSX st') S
         = instances (componentInstancesJSX st) S
           @ (if S \<in> fst ` set (componentUsage st) \<union> set (importedNames content)
              then replicate (length (jsxMatches content S)) f else [])"
    and "instances (componentInstancesFunc st') S
         = instances (componentInstancesFunc st) S
           @ (if S \<in> fst ` set (componentUsage st) \<union> set (importedNames content)
                 \<and> f \<notin> set (instances (componentInstancesJSX st) S)
                 \<and> jsxMatches content S = []
              then replicate (length (callMatches content S)) f else [])"
    by simp_all
qed

lemma walkFiles_append:
  "walkFiles (xs @ ys) st
   = (case walkFiles xs st of None \<Rightarrow> None | Some st1 \<Rightarrow> walkFiles ys st1)"
  by (induction xs arbitrary: st) (auto split: option.splits)

lemma walkFiles_total: "\<exists>st'. walkFiles files st = Some st'"
proof (induction files arbitrary: st)
  case Nil
  then show ?case by simp
next
  case (Cons fl files)
  from processFile_total [of fl st] obtain st1 where "processFile fl st = Some st1" by blast
  with Cons [of st1] show ?case by simp
qed

lemma walkFiles_distinct:
  "walkFiles files st = Some st' \<Longrightarrow> distinct (map fst (componentUsage st)) \<Longrightarrow>
     distinct (map fst (componentUsage st'))"
proof (induction files arbitrary: st)
  case Nil
  then show ?case by simp
next
  case (Cons fl files)
  from processFile_total [of fl st] obtain st1 where
    1: "processFile fl st = Some st1"
    and cu: "componentUsage st1
          = (case snd fl of
               None \<Rightarrow> componentUsage st
             | Some content \<Rightarrow>
                 tableOf (foldC (addImport (fst fl)) (componentUsage st) (importedNames content)))"
    by blast
  from cu Cons.prems(2) have "distinct (map fst (componentUsage st1))"
    by (auto simp: foldC_addImport_inv split: option.splits)
  with Cons.IH [of st1] Cons.prems(1) 1 show ?case by simp
qed

lemma count_list_append: "count_list (xs @ ys) x = count_list xs x + count_list ys x"
  by (induction xs) auto

lemma count_list_replicate: "count_list (replicate n y) x = (if x = y then n else 0)"
  by (induction n) auto

lemma walkFiles_count_other:
  assumes "walkFiles files st = Some st'" and "F \<notin> fst ` set files"
  shows "count_list (instances (componentInstancesJSX st') k) F
         = count_list (instances (componentInstancesJSX st) k) F"
    and "count_list (instances (componentInstancesFunc st') k) F
         = count_list (instances (componentInstancesFunc st) k) F"
  using assms
proof (induction files arbitrary: st)
  case Nil
  {
    case 1 then show ?case by simp
  next
    case 2 then show ?case by simp
  }
next
  case (Cons fl files)
  {
    fix st assume w: "walkFiles (fl # files) st = Some st'" and n: "F \<notin> fst ` set (fl # files)"
    from w obtain st1 where 1: "processFile fl st = Some st1" and 2: "walkFiles files st1 = Some st'"
      by (auto split: option.splits)
    from n have nf: "F \<noteq> fst fl" and n': "F \<notin> fst ` set files" by auto
    from processFile_grow [OF 1, of k] nf
    have "count_list (instances (componentInstancesJSX st1) k) F
          = count_list (instances (componentInstancesJSX st) k) F"
      "count_list (instances (componentInstancesFunc st1) k) F
          = count_list (instances (componentInstancesFunc st) k) F"
      by (auto simp: count_list_append count_list_replicate)
    with Cons.IH(1) [OF 2 n'] Cons.IH(2) [OF 2 n']
    have "count_list (instances (componentInstancesJSX st') k) F
         = count_list (instances (componentInstancesJSX st) k) F
       \<and> count_list (instances (componentInstancesFunc st') k) F
         = count_list (instances (componentInstancesFunc st) k) F"
      by simp
  }
  note step = this
  {
    case 1 from step [OF 1] show ?case by simp
  next
    case 2 from step [OF 2] show ?case by simp
  }
qed

lemma importedBy_simps [simp]:
  "importedBy [] = {}"
  "importedBy (file # files)
   = (case snd file of None \<Rightarrow> {} | Some content \<Rightarrow> set (importedNames content)) \<union> importedBy files"
  "importedBy (xs @ ys) = importedBy xs \<union> importedBy ys"
  by (auto simp: importedBy_def split: option.splits)

lemma walkFiles_keys:
  assumes "walkFiles files st = Some st'" and "plainNames files"
  shows "fst ` set (componentUsage st') = fst ` set (componentUsage st) \<union> importedBy files"
  using assms
proof (induction files arbitrary: st)
  case Nil
  then show ?case by simp
next
  case (Cons fl files)
  from Cons.prems(1) obtain st1 where
    1: "processFile fl st = Some st1" and 2: "walkFiles files st1 = Some st'"
    by (auto split: option.splits)
  from Cons.prems(2) have p: "plainNames files"
    and q: "(case snd fl of None \<Rightarrow> {} | Some content \<Rightarrow> set (importedNames content))
              \<inter> set objectPrototypeKeys = {}"
    by (auto simp: plainNames_def)
  from processFile_total [of fl st] 1
  have cu: "componentUsage st1
          = (case snd fl of
               None \<Rightarrow> componentUsage st
             | Some content \<Rightarrow>
                 tableOf (foldC (addImport (fst fl)) (componentUsage st) (importedNames content)))"
    by simp
  have "fst ` set (componentUsage st1)
        = fst ` set (componentUsage st)
          \<union> (case snd fl of None \<Rightarrow> {} | Some content \<Rightarrow> set (importedNames content))"
  proof (cases "snd fl")
    case None
    with cu show ?thesis by simp
  next
    case (Some content)
    with q have "set (importedNames content) \<inter> set objectPrototypeKeys = {}" by simp
    from foldC_addImport [OF this] cu Some show ?thesis
      by (simp add: tableOf_def keys_addAll)
  qed
  with Cons.IH [OF 2 p] show ?case by auto
qed

lemma instances_initial [simp]:
  "instances (componentInstancesJSX initialState) k = []"
  "instances (componentInstancesFunc initialState) k = []"
  "componentUsage initialState = []"
  by (simp_all add: initialState_def instances_def)

lemma count_list_0_notin: "count_list xs x = 0 \<longleftrightarrow> x \<notin> set xs"
  by (simp add: count_list_0_iff)

lemma walk_plain_counts:
  assumes "list_all isWord S"
    and "distinct (map fst (pre @ (F, Some content) # post))"
    and "plainNames (pre @ [(F, Some content)])"
  shows "\<exists>st. walkFiles (pre @ (F, Some content) # post) initialState = Some st
           \<and> count_list (instances (componentInstancesJSX st) S) F
               = (if S \<in> importedBy (pre @ [(F, Some content)])
                  then length (jsxMatches content S) else 0)
           \<and> count_list (instances (componentInstancesFunc st) S) F
               = (if S \<in> importedBy (pre @ [(F, Some content)]) \<and> jsxMatches content S = []
                  then length (callMatches content S) else 0)"
proof -
  from walkFiles_total obtain st0 where w0: "walkFiles pre initialState = Some st0" by blast
  from processFile_total obtain st1 where p1: "processFile (F, Some content) st0 = Some st1"
    by blast
  from walkFiles_total obtain st where w2: "walkFiles post st1 = Some st" by blast
  have w: "walkFiles (pre @ (F, Some content) # post) initialState = Some st"
    using w0 p1 w2 by (simp add: walkFiles_append)
  from assms(2) have Fpre: "F \<notin> fst ` set pre" and Fpost: "F \<notin> fst ` set post" by auto
  from assms(3) have pn: "plainNames pre"
    and pc: "set (importedNames content) \<inter> set objectPrototypeKeys = {}"
    by (auto simp: plainNames_def)
  have d0: "distinct (map fst (componentUsage st0))"
    using walkFiles_distinct [OF w0] by simp
  have k0: "fst ` set (componentUsage st0) = importedBy pre"
    using walkFiles_keys [OF w0 pn] by simp
  have z: "count_list (instances (componentInstancesJSX st0) S) F = 0"
    "count_list (instances (componentInstancesFunc st0) S) F = 0"
    using walkFiles_count_other [OF w0 Fpre, of S] by simp_all
  then have fresh: "F \<notin> set (instances (componentInstancesJSX st0) S)"
    by (simp add: count_list_0_notin)
  have keys: "fst ` set (componentUsage st0) \<union> set (importedNames content)
              = importedBy (pre @ [(F, Some content)])"
    using k0 by simp
  note pp = processFile_plain [OF assms(1) d0 p1 pc, unfolded keys]
  have "count_list (instances (componentInstancesJSX st) S) F
        = count_list (instances (componentInstancesJSX st1) S) F"
    "count_list (instances (componentInstancesFunc st) S) F
        = count_list (instances (componentInstancesFunc st1) S) F"
    using walkFiles_count_other [OF w2 Fpost, of S] by simp_all
  with pp z fresh w show ?thesis
    by (simp add: count_list_append count_list_replicate)
qed

lemma firstMatch_cat_zero:
  assumes "firstMatch a p s = Some (0, None)" and "firstMatch (cat rs) p s = Some (m, h)"
  shows "firstMatch (cat (a # rs)) p s = Some (m, h)"
  using firstMatch_cat_Cons [OF assms(1), of rs m h] assms(2)
  by (simp add: orElse_def split: option.splits)

lemma firstMatch_cat_Many:
  assumes "list_all (inClass k) u" "t = [] \<or> \<not> inClass k (hd t)"
    and "\<And>q. firstMatch (cat rs) q t = Some (m, h)"
  shows "firstMatch (cat (Many k # rs)) p (u @ t) = Some (length u + m, h)"
  using firstMatch_cat_Cons [OF firstMatch_Many [OF assms(1,2)], of rs p m h] assms(3)
  by (simp add: orElse_def split: option.splits)

lemma call_at_start:
  assumes "wordName S"
  shows "\<exists>ms. callMatches (S @ ''('' @ rest) S = (0, length S + 1, None) # ms"
proof -
  from assms obtain c cs where S: "S = c # cs" "isWord c"
    by (cases S) (auto simp: wordName_def)
  let ?s = "S @ ''('' @ rest"
  have t3: "firstMatch (cat [Lit ''('']) q (''('' @ rest) = Some (1 + 0, None)" for q
    using firstMatch_cat_Lit [of "[]" rest 0 None "''(''" q] firstMatch_cat_Nil by simp
  have t2: "firstMatch (cat [Many space, Lit ''('']) q ([] @ ''('' @ rest) = Some (0 + 1, None)" for q
    using firstMatch_cat_Many [of space "[]" "''('' @ rest" "[Lit ''('']" 1 None q] t3
    by (simp add: space_def isSpace_def)
  have t1: "firstMatch (cat [Lit S, Many space, Lit ''('']) q ?s = Some (length S + 1, None)" for q
    using firstMatch_cat_Lit [of "[Many space, Lit ''('']" "''('' @ rest" 1 None S q] t2 by simp
  have wb: "firstMatch WordB None ?s = Some (0, None)"
    using S by (simp add: firstMatch_def isWordOpt_def)
  have nb: "firstMatch (NotBehind (In [Ch (CHR ''.''), Ch (CHR ''<'')])) None ?s = Some (0, None)"
    by (simp add: firstMatch_def)
  have "firstMatch (functionCallPattern S) None ?s = Some (length S + 1, None)"
    unfolding functionCallPattern_def
    by (rule firstMatch_cat_zero [OF nb firstMatch_cat_zero [OF wb t1]])
  from exec_firstMatch [OF this]
  have e: "exec (functionCallPattern S) None ?s = Some (0, length S + 1, None)" .
  from execAll_total [OF usage_patterns_ok(2)] obtain ms where
    "execAll (functionCallPattern S) (prevAt None ?s (0 + (length S + 1)))
       (drop (0 + (length S + 1)) ?s) = Some ms"
    by blast
  with e have "execAll (functionCallPattern S) None ?s
               = Some ((0, length S + 1, None) # map (\<lambda>(j, m, h). (0 + (length S + 1) + j, m, h)) ms)"
    by (subst execAll.simps) simp
  then show ?thesis by (simp add: callMatches_def matchesOf_def)
qed

lemma keys_pushInstance: "fst ` set (pushInstance f k t) = insert k (fst ` set t)"
  by (simp add: pushInstance_def dom_update)

lemma noEmptyEntry_push: "noEmptyEntry t \<Longrightarrow> noEmptyEntry (pushInstance f k t)"
  unfolding noEmptyEntry_def keys_pushInstance by (auto simp: instances_pushInstance)

lemma noEmptyEntry_funpow: "noEmptyEntry t \<Longrightarrow> noEmptyEntry ((pushInstance f k ^^ n) t)"
  by (induction n) (auto intro: noEmptyEntry_push)

lemma noEmptyEntry_foldl:
  "noEmptyEntry t \<Longrightarrow> noEmptyEntry (foldl (\<lambda>t k. pushInstance f k t) t ks)"
  by (induction ks arbitrary: t) (auto intro: noEmptyEntry_push)

lemma usagesOf_noEmptyEntry:
  assumes "usagesOf content f c st = Some st'"
    and "noEmptyEntry (componentInstancesJSX st)" and "noEmptyEntry (componentInstancesFunc st)"
  shows "noEmptyEntry (componentInstancesJSX st') \<and> noEmptyEntry (componentInstancesFunc st')"
proof (cases "startsWith c ''*''")
  case True
  with assms(1) have "st' = st\<lparr>componentInstancesJSX :=
                 foldl (\<lambda>t k. pushInstance f k t) (componentInstancesJSX st)
                   (nsJSXNames content (drop 1 c)),
               componentInstancesFunc :=
                 foldl (\<lambda>t k. pushInstance f k t) (componentInstancesFunc st)
                   (filter (\<lambda>k. k \<notin> set (nsJSXNames content (drop 1 c)))
                      (nsCallNames content (drop 1 c)))\<rparr>"
    by (simp add: usagesOf_def namespaceUsages_eq)
  with assms(2,3) show ?thesis by (simp add: noEmptyEntry_foldl)
next
  case False
  with assms(1) have "st' = st\<lparr>componentInstancesJSX :=
                 (pushInstance f c ^^ length (jsxMatches content c)) (componentInstancesJSX st),
               componentInstancesFunc :=
                 (if f \<in> set (instances ((pushInstance f c ^^ length (jsxMatches content c))
                                           (componentInstancesJSX st)) c)
                  then componentInstancesFunc st
                  else (pushInstance f c ^^ length (callMatches content c))
                         (componentInstancesFunc st))\<rparr>"
    by (simp add: usagesOf_def plainUsages_eq)
  with assms(2,3) show ?thesis by (simp add: noEmptyEntry_funpow)
qed

lemma forKeys_noEmptyEntry:
  assumes "forKeys (usagesOf content f) ks st = Some st'"
    and "noEmptyEntry (componentInstancesJSX st)" and "noEmptyEntry (componentInstancesFunc st)"
  shows "noEmptyEntry (componentInstancesJSX st') \<and> noEmptyEntry (componentInstancesFunc st')"
  using assms
proof (induction ks arbitrary: st)
  case Nil
  then show ?case by simp
next
  case (Cons c ks)
  from Cons.prems(1) obtain st1 where 1: "usagesOf content f c st = Some st1"
    and 2: "forKeys (usagesOf content f) ks st1 = Some st'"
    by (auto split: option.splits)
  from usagesOf_noEmptyEntry [OF 1 Cons.prems(2,3)] Cons.IH [OF 2] show ?case by simp
qed

lemma processFile_noEmptyEntry:
  assumes "processFile fl st = Some st'"
    and "noEmptyEntry (componentInstancesJSX st)" and "noEmptyEntry (componentInstancesFunc st)"
  shows "noEmptyEntry (componentInstancesJSX st') \<and> noEmptyEntry (componentInstancesFunc st')"
proof (cases "snd fl")
  case None
  with assms show ?thesis by (simp add: processFile_def)
next
  case (Some content)
  let ?r = "foldC (addImport (fst fl)) (componentUsage st) (importedNames content)"
  show ?thesis
  proof (cases ?r)
    case (Normal cu)
    show ?thesis
    proof (cases "0 < length (objectKeys cu)")
      case True
      with assms(1) Some Normal
      have "forKeys (usagesOf content (fst fl)) (objectKeys cu) (st\<lparr>componentUsage := cu\<rparr>) = Some st'"
        by (simp add: processFile_def findImports_eq findComponentUsages_def)
      from forKeys_noEmptyEntry [OF this] assms(2,3) show ?thesis by simp
    next
      case False
      with assms(1) Some Normal have "st' = st\<lparr>componentUsage := cu\<rparr>"
        by (simp add: processFile_def findImports_eq)
      with assms(2,3) show ?thesis by simp
    qed
  next
    case (Thrown cu)
    with assms(1) Some have "st' = st\<lparr>componentUsage := cu\<rparr>"
      by (simp add: processFile_def findImports_eq)
    with assms(2,3) show ?thesis by simp
  qed
qed

lemma walkFiles_noEmptyEntry:
  assumes "walkFiles files st = Some st'"
    and "noEmptyEntry (componentInstancesJSX st)" and "noEmptyEntry (componentInstancesFunc st)"
  shows "noEmptyEntry (componentInstancesJSX st') \<and> noEmptyEntry (componentInstancesFunc st')"
  using assms
proof (induction files arbitrary: st)
  case Nil
  then show ?case by simp
next
  case (Cons fl files)
  from Cons.prems(1) obtain st1 where 1: "processFile fl st = Some st1"
    and 2: "walkFiles files st1 = Some st'"
    by (auto split: option.splits)
  from processFile_noEmptyEntry [OF 1 Cons.prems(2,3)] Cons.IH [OF 2] show ?case by simp
qed

lemma key_iff_instances:
  assumes "noEmptyEntry t"
  shows "c \<in> set (objectKeys t) \<longleftrightarrow> instances t c \<noteq> []"
proof
  assume "c \<in> set (objectKeys t)"
  with assms show "instances t c \<noteq> []" unfolding set_objectKeys noEmptyEntry_def by blast
next
  assume "instances t c \<noteq> []"
  then obtain fs where "map_of t c = Some fs" by (auto simp: instances_def split: option.splits)
  from map_of_SomeD [OF this] show "c \<in> set (objectKeys t)"
    by (force simp: set_objectKeys)
qed

lemma isWord_not_dot: "list_all isWord a \<Longrightarrow> CHR ''.'' \<notin> set a"
  by (auto simp: list_all_iff isWord_def Let_def)

lemma owner_full:
  assumes "list_all isWord a"
  shows "owner (fullComponentName a g) = CHR ''*'' # a"
proof -
  have "CHR ''.'' \<notin> set b \<Longrightarrow> takeWhile (\<lambda>c. c \<noteq> CHR ''.'') (b @ CHR ''.'' # m) = b" for b m
    by (induction b) auto
  from this [OF isWord_not_dot [OF assms]]
  have "takeWhile (\<lambda>c. c \<noteq> CHR ''.'') (a @ CHR ''.'' # m) = a" for m .
  then show ?thesis by (simp add: owner_def fullComponentName_def)
qed

lemma count_list_pos: "0 < count_list xs x \<longleftrightarrow> x \<in> set xs"
  by (induction xs) auto

lemma startsWith_star: "startsWith c ''*'' \<Longrightarrow> c = CHR ''*'' # drop 1 c"
  by (cases c) (auto simp: startsWith_def)

lemma delta_owner:
  assumes "symbolKey c" and "0 < jsxDelta content c k \<or> 0 < funcDelta content f jsx c k"
  shows "owner k = c"
proof (cases "startsWith c ''*''")
  case True
  with assms(1) have a: "list_all isWord (drop 1 c)" by (simp add: symbolKey_def)
  from assms(2) True have "k \<in> set (nsJSXNames content (drop 1 c))
      \<or> k \<in> set (nsCallNames content (drop 1 c))"
    by (auto simp: jsxDelta_def funcDelta_def count_list_pos)
  then obtain g where "k = fullComponentName (drop 1 c) g"
    by (auto simp: nsJSXNames_def nsCallNames_def)
  with owner_full [OF a] startsWith_star [OF True] show ?thesis by simp
next
  case False
  with assms(1) have "list_all isWord c" by (simp add: symbolKey_def)
  from isWord_not_dot [OF this] have "owner c = c" by (simp add: owner_def)
  moreover from assms(2) False have "k = c"
    by (auto simp: jsxDelta_def funcDelta_def split: if_splits)
  ultimately show ?thesis by simp
qed

lemma delta_exclusive: "\<not> (0 < jsxDelta content c k \<and> 0 < funcDelta content f jsx c k)"
  by (auto simp: jsxDelta_def funcDelta_def count_list_pos split: if_splits)

lemma in_set_append_replicate: "x \<in> set (xs @ replicate n y) \<longleftrightarrow> x \<in> set xs \<or> (0 < n \<and> x = y)"
  by auto

lemma forKeys_exclusive:
  assumes "distinct ks" and "list_all symbolKey ks"
    and "forKeys (usagesOf content F) ks st = Some st'"
    and "\<And>k. F \<in> set (instances (componentInstancesJSX st) k)
              \<or> F \<in> set (instances (componentInstancesFunc st) k) \<Longrightarrow> owner k \<notin> set ks"
    and "\<And>k. \<not> (F \<in> set (instances (componentInstancesJSX st) k)
               \<and> F \<in> set (instances (componentInstancesFunc st) k))"
  shows "\<not> (F \<in> set (instances (componentInstancesJSX st') k)
            \<and> F \<in> set (instances (componentInstancesFunc st') k))"
  using assms
proof (induction ks arbitrary: st)
  case Nil
  then show ?case by simp
next
  case (Cons c ks)
  from usagesOf_effect [of content F c st] obtain st1 where
    1: "usagesOf content F c st = Some st1"
    and j: "\<And>k. instances (componentInstancesJSX st1) k
            = instances (componentInstancesJSX st) k @ replicate (jsxDelta content c k) F"
    and u: "\<And>k. instances (componentInstancesFunc st1) k
            = instances (componentInstancesFunc st) k
              @ replicate (funcDelta content F (componentInstancesJSX st) c k) F"
    by blast
  from Cons.prems(3) 1 have r: "forKeys (usagesOf content F) ks st1 = Some st'" by simp
  from Cons.prems(1) have d: "distinct ks" and cn: "c \<notin> set ks" by simp_all
  from Cons.prems(2) have sk: "list_all symbolKey ks" and sc: "symbolKey c" by simp_all
  have own: "owner k \<notin> set ks"
    if "F \<in> set (instances (componentInstancesJSX st1) k)
        \<or> F \<in> set (instances (componentInstancesFunc st1) k)" for k
  proof (cases "F \<in> set (instances (componentInstancesJSX st) k)
                \<or> F \<in> set (instances (componentInstancesFunc st) k)")
    case True
    from Cons.prems(4) [OF this] show ?thesis by simp
  next
    case False
    with that have "0 < jsxDelta content c k \<or> 0 < funcDelta content F (componentInstancesJSX st) c k"
      unfolding j u in_set_append_replicate by auto
    from delta_owner [OF sc this] cn show ?thesis by simp
  qed
  have excl: "\<not> (F \<in> set (instances (componentInstancesJSX st1) k)
               \<and> F \<in> set (instances (componentInstancesFunc st1) k))" for k
  proof (cases "owner k = c")
    case True
    then have "owner k \<in> set (c # ks)" by simp
    with Cons.prems(4) [of k] have "F \<notin> set (instances (componentInstancesJSX st) k)"
      "F \<notin> set (instances (componentInstancesFunc st) k)" by blast+
    with delta_exclusive [of content c k F "componentInstancesJSX st"] show ?thesis
      unfolding j u in_set_append_replicate by auto
  next
    case False
    with delta_owner [OF sc, of content k F "componentInstancesJSX st"]
    have "\<not> (0 < jsxDelta content c k
              \<or> 0 < funcDelta content F (componentInstancesJSX st) c k)"
      by blast
    then have "jsxDelta content c k = 0" "funcDelta content F (componentInstancesJSX st) c k = 0"
      by simp_all
    with Cons.prems(5) [of k] show ?thesis unfolding j u by simp
  qed
  from Cons.IH [OF d sk r own excl] show ?case .
qed

lemma foldC_addImport_keys:
  "fst ` set (tableOf (foldC (addImport f) cu ks)) \<subseteq> fst ` set cu \<union> set ks"
proof (induction ks arbitrary: cu)
  case Nil
  then show ?case by (simp add: tableOf_def)
next
  case (Cons k ks)
  show ?case
  proof (cases "addImport f cu k")
    case (Normal cu1)
    then obtain v where "cu1 = AList.update k v cu"
      by (auto simp: addImport_def split: property.splits)
    then have "fst ` set cu1 = insert k (fst ` set cu)" by (simp add: dom_update)
    moreover have "tableOf (foldC (addImport f) cu (k # ks)) = tableOf (foldC (addImport f) cu1 ks)"
      using Normal by (simp add: foldC_tableOf)
    ultimately show ?thesis using Cons.IH [of cu1] by auto
  next
    case (Thrown cu1)
    then have "cu1 = cu" by (auto simp: addImport_def split: property.splits)
    with Thrown have "tableOf (foldC (addImport f) cu (k # ks)) = cu"
      by (simp add: foldC_tableOf tableOf_def)
    then show ?thesis by auto
  qed
qed

lemma processFile_keys_bounds:
  assumes "processFile fl st = Some st1"
  shows "fst ` set (componentUsage st) \<subseteq> fst ` set (componentUsage st1)"
    and "fst ` set (componentUsage st1) \<subseteq> fst ` set (componentUsage st) \<union> importedBy [fl]"
proof -
  from processFile_total [of fl st] assms
  have cu: "componentUsage st1
        = (case snd fl of
             None \<Rightarrow> componentUsage st
           | Some content \<Rightarrow>
               tableOf (foldC (addImport (fst fl)) (componentUsage st) (importedNames content)))"
    by simp
  show "fst ` set (componentUsage st) \<subseteq> fst ` set (componentUsage st1)"
  proof (cases "snd fl")
    case None
    with cu show ?thesis by simp
  next
    case (Some content)
    with cu foldC_addImport_mono [of "componentUsage st" "fst fl" "importedNames content"]
    show ?thesis by simp
  qed
  show "fst ` set (componentUsage st1) \<subseteq> fst ` set (componentUsage st) \<union> importedBy [fl]"
  proof (cases "snd fl")
    case None
    with cu show ?thesis by simp
  next
    case (Some content)
    with cu foldC_addImport_keys [of "fst fl" "componentUsage st" "importedNames content"]
    show ?thesis by simp
  qed
qed

lemma walkFiles_keys_bounds:
  assumes "walkFiles files st = Some st'"
  shows "fst ` set (componentUsage st) \<subseteq> fst ` set (componentUsage st')
         \<and> fst ` set (componentUsage st') \<subseteq> fst ` set (componentUsage st) \<union> importedBy files"
  using assms
proof (induction files arbitrary: st)
  case Nil
  then show ?case by simp
next
  case (Cons fl files)
  from Cons.prems obtain st1 where 1: "processFile fl st = Some st1"
    and 2: "walkFiles files st1 = Some st'"
    by (auto split: option.splits)
  note a = processFile_keys_bounds [OF 1]
  from Cons.IH [OF 2] have b: "fst ` set (componentUsage st1) \<subseteq> fst ` set (componentUsage st')"
    and c: "fst ` set (componentUsage st') \<subseteq> fst ` set (componentUsage st1) \<union> importedBy files"
    by simp_all
  have i: "importedBy (fl # files) = importedBy [fl] \<union> importedBy files"
    using importedBy_simps(3) [of "[fl]" files] by simp
  from a(1) b have "fst ` set (componentUsage st) \<subseteq> fst ` set (componentUsage st')"
    by (rule subset_trans)
  moreover from c a(2)
  have "fst ` set (componentUsage st') \<subseteq> fst ` set (componentUsage st) \<union> importedBy (fl # files)"
    unfolding i by blast
  ultimately show ?case by simp
qed

lemma processFile_exclusive:
  assumes "processFile fl st = Some st'"
    and "distinct (map fst (componentUsage st))"
    and "\<forall>k \<in> fst ` set (componentUsage st'). symbolKey k"
    and fresh: "\<And>k. fst fl \<notin> set (instances (componentInstancesJSX st) k)
                    \<and> fst fl \<notin> set (instances (componentInstancesFunc st) k)"
    and inv: "\<And>k G. \<not> (G \<in> set (instances (componentInstancesJSX st) k)
                       \<and> G \<in> set (instances (componentInstancesFunc st) k))"
  shows "\<not> (G \<in> set (instances (componentInstancesJSX st') k)
            \<and> G \<in> set (instances (componentInstancesFunc st') k))"
proof (cases "G = fst fl")
  case False
  from processFile_grow [OF assms(1), of k] obtain n m where
    "instances (componentInstancesJSX st') k
       = instances (componentInstancesJSX st) k @ replicate n (fst fl)"
    "instances (componentInstancesFunc st') k
       = instances (componentInstancesFunc st) k @ replicate m (fst fl)"
    by blast
  with False inv [of G k] show ?thesis by (simp add: in_set_append_replicate)
next
  case True
  show ?thesis
  proof (cases "snd fl")
    case None
    with assms(1) have "st' = st" by (simp add: processFile_def)
    with inv show ?thesis by simp
  next
    case (Some content)
    let ?r = "foldC (addImport (fst fl)) (componentUsage st) (importedNames content)"
    have dr: "distinct (map fst (tableOf ?r))" by (rule foldC_addImport_inv [OF assms(2)])
    show ?thesis
    proof (cases ?r)
      case (Normal cu)
      show ?thesis
      proof (cases "0 < length (objectKeys cu)")
        case l: True
        with assms(1) Some Normal
        have r: "forKeys (usagesOf content (fst fl)) (objectKeys cu) (st\<lparr>componentUsage := cu\<rparr>)
                 = Some st'"
          by (simp add: processFile_def findImports_eq findComponentUsages_def)
        from forKeys_total_cu [of content "fst fl" "objectKeys cu" "st\<lparr>componentUsage := cu\<rparr>"] r
        have "componentUsage st' = cu" by simp
        with assms(3) have sk: "list_all symbolKey (objectKeys cu)"
          by (simp add: list_all_iff set_objectKeys)
        from dr Normal have d: "distinct (objectKeys cu)"
          by (simp add: tableOf_def distinct_objectKeys)
        have "\<not> (fst fl \<in> set (instances (componentInstancesJSX st') k)
                \<and> fst fl \<in> set (instances (componentInstancesFunc st') k))"
          by (rule forKeys_exclusive [OF d sk r]) (use fresh in simp_all)
        with True show ?thesis by simp
      next
        case False
        with assms(1) Some Normal have "st' = st\<lparr>componentUsage := cu\<rparr>"
          by (simp add: processFile_def findImports_eq)
        with inv [of G k] show ?thesis by simp
      qed
    next
      case (Thrown cu)
      with assms(1) Some have "st' = st\<lparr>componentUsage := cu\<rparr>"
        by (simp add: processFile_def findImports_eq)
      with inv [of G k] show ?thesis by simp
    qed
  qed
qed

lemma walkFiles_exclusive:
  assumes "walkFiles files st = Some st'"
    and "distinct (map fst files)"
    and "distinct (map fst (componentUsage st))"
    and "\<forall>k \<in> fst ` set (componentUsage st'). symbolKey k"
    and "\<And>k F. F \<in> fst ` set files \<Longrightarrow>
            F \<notin> set (instances (componentInstancesJSX st) k)
            \<and> F \<notin> set (instances (componentInstancesFunc st) k)"
    and "\<And>k G. \<not> (G \<in> set (instances (componentInstancesJSX st) k)
                   \<and> G \<in> set (instances (componentInstancesFunc st) k))"
  shows "\<not> (G \<in> set (instances (componentInstancesJSX st') k)
            \<and> G \<in> set (instances (componentInstancesFunc st') k))"
  using assms
proof (induction files arbitrary: st)
  case Nil
  then show ?case by simp
next
  case (Cons fl files)
  from Cons.prems(1) obtain st1 where 1: "processFile fl st = Some st1"
    and 2: "walkFiles files st1 = Some st'"
    by (auto split: option.splits)
  from Cons.prems(2) have d: "distinct (map fst files)" and nf: "fst fl \<notin> fst ` set files"
    by auto
  have d1: "distinct (map fst (componentUsage st1))"
    using walkFiles_distinct [of "[fl]" st st1] 1 Cons.prems(3) by simp
  from walkFiles_keys_bounds [OF 2, THEN conjunct1] Cons.prems(4)
  have sk1: "\<forall>k \<in> fst ` set (componentUsage st1). symbolKey k" by blast
  have fr: "fst fl \<notin> set (instances (componentInstancesJSX st) k)
            \<and> fst fl \<notin> set (instances (componentInstancesFunc st) k)" for k
    using Cons.prems(5) [of "fst fl" k] by simp
  have inv1: "\<not> (G \<in> set (instances (componentInstancesJSX st1) k)
               \<and> G \<in> set (instances (componentInstancesFunc st1) k))" for k G
    by (rule processFile_exclusive [OF 1 Cons.prems(3) sk1 fr Cons.prems(6)])
  have fresh1: "F \<notin> set (instances (componentInstancesJSX st1) k)
            \<and> F \<notin> set (instances (componentInstancesFunc st1) k)"
    if "F \<in> fst ` set files" for k F
  proof -
    from that nf have ne: "F \<noteq> fst fl" by blast
    from that have "F \<in> fst ` set (fl # files)" by simp
    from Cons.prems(5) [OF this, of k]
    have "F \<notin> set (instances (componentInstancesJSX st) k)"
      "F \<notin> set (instances (componentInstancesFunc st) k)" by simp_all
    moreover from processFile_grow [OF 1, of k] obtain n m where
      "instances (componentInstancesJSX st1) k
         = instances (componentInstancesJSX st) k @ replicate n (fst fl)"
      "instances (componentInstancesFunc st1) k
         = instances (componentInstancesFunc st) k @ replicate m (fst fl)"
      by blast
    ultimately show ?thesis using ne by (simp add: in_set_append_replicate)
  qed
  show ?case by (rule Cons.IH [OF 2 d d1 Cons.prems(4) fresh1 inv1])
qed

lemma count_list_filter:
  "count_list (filter P xs) x = (if P x then count_list xs x else 0)"
  by (induction xs) auto

lemma owner_member:
  assumes "list_all isWord a"
  shows "owner (a @ ''.'' @ m) = CHR ''*'' # a"
  using owner_full [OF assms, of "Some m"] by (simp add: fullComponentName_def)

lemma delta_member:
  assumes "list_all isWord a" and "symbolKey c" and "c \<noteq> CHR ''*'' # a"
  shows "jsxDelta content c (a @ ''.'' @ m) = 0"
    and "funcDelta content f jsx c (a @ ''.'' @ m) = 0"
proof -
  have "\<not> (0 < jsxDelta content c (a @ ''.'' @ m)
            \<or> 0 < funcDelta content f jsx c (a @ ''.'' @ m))"
  proof
    assume "0 < jsxDelta content c (a @ ''.'' @ m)
            \<or> 0 < funcDelta content f jsx c (a @ ''.'' @ m)"
    from delta_owner [OF assms(2) this] owner_member [OF assms(1), of m] assms(3)
    show False by simp
  qed
  then show "jsxDelta content c (a @ ''.'' @ m) = 0"
    and "funcDelta content f jsx c (a @ ''.'' @ m) = 0"
    by simp_all
qed

lemma delta_alias:
  "jsxDelta content (CHR ''*'' # a) k = count_list (nsJSXNames content a) k"
  "funcDelta content f jsx (CHR ''*'' # a) k
   = (if k \<notin> set (nsJSXNames content a) then count_list (nsCallNames content a) k else 0)"
  by (simp_all add: jsxDelta_def funcDelta_def startsWith_def count_list_filter)

lemma forKeys_member:
  assumes "list_all isWord a" and "distinct ks" and "list_all symbolKey ks"
    and "forKeys (usagesOf content f) ks st = Some st'"
  shows "instances (componentInstancesJSX st') (a @ ''.'' @ m)
         = instances (componentInstancesJSX st) (a @ ''.'' @ m)
           @ (if CHR ''*'' # a \<in> set ks
              then replicate (count_list (nsJSXNames content a) (a @ ''.'' @ m)) f else [])"
    and "instances (componentInstancesFunc st') (a @ ''.'' @ m)
         = instances (componentInstancesFunc st) (a @ ''.'' @ m)
           @ (if CHR ''*'' # a \<in> set ks \<and> a @ ''.'' @ m \<notin> set (nsJSXNames content a)
              then replicate (count_list (nsCallNames content a) (a @ ''.'' @ m)) f else [])"
  using assms(2-4)
proof (induction ks arbitrary: st)
  case Nil
  {
    case 1 then show ?case by simp
  next
    case 2 then show ?case by simp
  }
next
  case (Cons c ks)
  let ?k = "a @ ''.'' @ m"
  {
    fix st assume d: "distinct (c # ks)" and sk: "list_all symbolKey (c # ks)"
      and r: "forKeys (usagesOf content f) (c # ks) st = Some st'"
    from usagesOf_effect [of content f c st] obtain st1 where
      1: "usagesOf content f c st = Some st1"
      and j: "instances (componentInstancesJSX st1) ?k
              = instances (componentInstancesJSX st) ?k @ replicate (jsxDelta content c ?k) f"
      and u: "instances (componentInstancesFunc st1) ?k
              = instances (componentInstancesFunc st) ?k
                @ replicate (funcDelta content f (componentInstancesJSX st) c ?k) f"
      by blast
    from r 1 have r1: "forKeys (usagesOf content f) ks st1 = Some st'" by simp
    from d have dk: "distinct ks" by simp
    from sk have sks: "list_all symbolKey ks" and sc: "symbolKey c" by simp_all
    note ih = Cons.IH(1) [OF dk sks r1] Cons.IH(2) [OF dk sks r1]
    have "instances (componentInstancesJSX st') ?k
         = instances (componentInstancesJSX st) ?k
           @ (if CHR ''*'' # a \<in> set (c # ks)
              then replicate (count_list (nsJSXNames content a) ?k) f else [])
       \<and> instances (componentInstancesFunc st') ?k
         = instances (componentInstancesFunc st) ?k
           @ (if CHR ''*'' # a \<in> set (c # ks) \<and> ?k \<notin> set (nsJSXNames content a)
              then replicate (count_list (nsCallNames content a) ?k) f else [])"
    proof (cases "c = CHR ''*'' # a")
      case True
      with d have "CHR ''*'' # a \<notin> set ks" by simp
      with ih j u True show ?thesis by (simp add: delta_alias)
    next
      case False
      from delta_member [OF assms(1) sc False] j u
      have "instances (componentInstancesJSX st1) ?k = instances (componentInstancesJSX st) ?k"
        "instances (componentInstancesFunc st1) ?k = instances (componentInstancesFunc st) ?k"
        by simp_all
      with ih False show ?thesis by simp
    qed
  }
  note step = this
  {
    case 1 from step [OF 1] show ?case by simp
  next
    case 2 from step [OF 2] show ?case by simp
  }
qed

lemma processFile_member:
  assumes "list_all isWord a" and "distinct (map fst (componentUsage st))"
    and "processFile (f, Some content) st = Some st'"
    and "set (importedNames content) \<inter> set objectPrototypeKeys = {}"
    and "\<forall>k \<in> fst ` set (componentUsage st) \<union> set (importedNames content). symbolKey k"
  shows "instances (componentInstancesJSX st') (a @ ''.'' @ m)
         = instances (componentInstancesJSX st) (a @ ''.'' @ m)
           @ (if CHR ''*'' # a \<in> fst ` set (componentUsage st) \<union> set (importedNames content)
              then replicate (count_list (nsJSXNames content a) (a @ ''.'' @ m)) f else [])"
    and "instances (componentInstancesFunc st') (a @ ''.'' @ m)
         = instances (componentInstancesFunc st) (a @ ''.'' @ m)
           @ (if CHR ''*'' # a \<in> fst ` set (componentUsage st) \<union> set (importedNames content)
                 \<and> a @ ''.'' @ m \<notin> set (nsJSXNames content a)
              then replicate (count_list (nsCallNames content a) (a @ ''.'' @ m)) f else [])"
proof -
  let ?k = "a @ ''.'' @ m"
  let ?cu = "addAll f (componentUsage st) (importedNames content)"
  have fi: "findImports content f (componentUsage st) = Some (Normal ?cu)"
    by (rule findImports_Normal [OF assms(4)])
  have keys: "set (objectKeys ?cu) = fst ` set (componentUsage st) \<union> set (importedNames content)"
    by (simp add: set_objectKeys keys_addAll)
  have "distinct (map fst (tableOf (foldC (addImport f) (componentUsage st) (importedNames content))))"
    by (rule foldC_addImport_inv [OF assms(2)])
  then have d: "distinct (objectKeys ?cu)"
    by (simp add: foldC_addImport [OF assms(4)] tableOf_def distinct_objectKeys)
  from assms(5) have sk: "list_all symbolKey (objectKeys ?cu)"
    unfolding list_all_iff keys by simp
  have "instances (componentInstancesJSX st') ?k
         = instances (componentInstancesJSX st) ?k
           @ (if CHR ''*'' # a \<in> set (objectKeys ?cu)
              then replicate (count_list (nsJSXNames content a) ?k) f else [])
     \<and> instances (componentInstancesFunc st') ?k
         = instances (componentInstancesFunc st) ?k
           @ (if CHR ''*'' # a \<in> set (objectKeys ?cu) \<and> ?k \<notin> set (nsJSXNames content a)
              then replicate (count_list (nsCallNames content a) ?k) f else [])"
  proof (cases "0 < length (objectKeys ?cu)")
    case True
    with assms(3) fi
    have r: "forKeys (usagesOf content f) (objectKeys ?cu) (st\<lparr>componentUsage := ?cu\<rparr>) = Some st'"
      by (simp add: processFile_def findComponentUsages_def)
    from forKeys_member [OF assms(1) d sk r, of m] show ?thesis by simp
  next
    case False
    with assms(3) fi have "st' = st\<lparr>componentUsage := ?cu\<rparr>" by (simp add: processFile_def)
    moreover from False have "CHR ''*'' # a \<notin> set (objectKeys ?cu)" by simp
    ultimately show ?thesis by simp
  qed
  with keys show "instances (componentInstancesJSX st') ?k
         = instances (componentInstancesJSX st) ?k
           @ (if CHR ''*'' # a \<in> fst ` set (componentUsage st) \<union> set (importedNames content)
              then replicate (count_list (nsJSXNames content a) ?k) f else [])"
    and "instances (componentInstancesFunc st') ?k
         = instances (componentInstancesFunc st) ?k
           @ (if CHR ''*'' # a \<in> fst ` set (componentUsage st) \<union> set (importedNames content)
                 \<and> ?k \<notin> set (nsJSXNames content a)
              then replicate (count_list (nsCallNames content a) ?k) f else [])"
    by simp_all
qed

lemma walk_member_counts:
  assumes "list_all isWord a"
    and "distinct (map fst (pre @ (F, Some content) # post))"
    and "plainNames (pre @ [(F, Some content)])"
    and "\<forall>k \<in> importedBy (pre @ [(F, Some content)]). symbolKey k"
  shows "\<exists>st. walkFiles (pre @ (F, Some content) # post) initialState = Some st
           \<and> count_list (instances (componentInstancesJSX st) (a @ ''.'' @ m)) F
               = (if CHR ''*'' # a \<in> importedBy (pre @ [(F, Some content)])
                  then count_list (nsJSXNames content a) (a @ ''.'' @ m) else 0)
           \<and> count_list (instances (componentInstancesFunc st) (a @ ''.'' @ m)) F
               = (if CHR ''*'' # a \<in> importedBy (pre @ [(F, Some content)])
                     \<and> a @ ''.'' @ m \<notin> set (nsJSXNames content a)
                  then count_list (nsCallNames content a) (a @ ''.'' @ m) else 0)"
proof -
  let ?k = "a @ ''.'' @ m"
  from walkFiles_total obtain st0 where w0: "walkFiles pre initialState = Some st0" by blast
  from processFile_total obtain st1 where p1: "processFile (F, Some content) st0 = Some st1"
    by blast
  from walkFiles_total obtain st where w2: "walkFiles post st1 = Some st" by blast
  have w: "walkFiles (pre @ (F, Some content) # post) initialState = Some st"
    using w0 p1 w2 by (simp add: walkFiles_append)
  from assms(2) have Fpre: "F \<notin> fst ` set pre" and Fpost: "F \<notin> fst ` set post" by auto
  from assms(3) have pn: "plainNames pre"
    and pc: "set (importedNames content) \<inter> set objectPrototypeKeys = {}"
    by (auto simp: plainNames_def)
  have d0: "distinct (map fst (componentUsage st0))"
    using walkFiles_distinct [OF w0] by simp
  have k0: "fst ` set (componentUsage st0) = importedBy pre"
    using walkFiles_keys [OF w0 pn] by simp
  have z: "count_list (instances (componentInstancesJSX st0) ?k) F = 0"
    "count_list (instances (componentInstancesFunc st0) ?k) F = 0"
    using walkFiles_count_other [OF w0 Fpre, of ?k] by simp_all
  have keys: "fst ` set (componentUsage st0) \<union> set (importedNames content)
              = importedBy (pre @ [(F, Some content)])"
    using k0 by simp
  from assms(4) have sk: "\<forall>k \<in> fst ` set (componentUsage st0) \<union> set (importedNames content).
                             symbolKey k"
    unfolding keys .
  note pp = processFile_member [OF assms(1) d0 p1 pc sk, of m, unfolded keys]
  have "count_list (instances (componentInstancesJSX st) ?k) F
        = count_list (instances (componentInstancesJSX st1) ?k) F"
    "count_list (instances (componentInstancesFunc st) ?k) F
        = count_list (instances (componentInstancesFunc st1) ?k) F"
    using walkFiles_count_other [OF w2 Fpost, of ?k] by simp_all
  with pp z w show ?thesis
    by (simp add: count_list_append count_list_replicate)
qed

lemma distinct_singleton: "distinct xs \<Longrightarrow> set xs = {y} \<Longrightarrow> xs = [y]"
proof (cases xs)
  case Nil
  assume "set xs = {y}"
  with Nil show ?thesis by simp
next
  case (Cons x xs')
  assume d: "distinct xs" and s: "set xs = {y}"
  from s Cons have x: "x = y" by auto
  from d Cons x have "y \<notin> set xs'" by simp
  moreover from s Cons have "set xs' \<subseteq> {y}" by auto
  ultimately have "xs' = []" by (cases xs') auto
  with Cons x show ?thesis by simp
qed

lemma fromTarget_then:
  "firstMatch (cat fromTarget) p (''from \"your-package-name\"'' @ t) = Some (24, None)"
  by (simp add: firstMatch_def fromTarget_def cat_def targetPackageName_def space_def quote_def
      runLen_def prevAt_def isSpace_def)

lemma requireTarget_then:
  "firstMatch (cat requireTarget) p (''= require(\"your-package-name\")'' @ t) = Some (30, None)"
  by (simp add: firstMatch_def requireTarget_def cat_def targetPackageName_def space_def quote_def
      runLen_def prevAt_def isSpace_def)

lemma execAll_first:
  assumes "firstMatch r None s = Some (n, g)" and "0 < minLen r"
  shows "\<exists>ms. execAll r None s = Some ((0, n, g) # ms)"
proof -
  from assms(1) have "(n, g) \<in> set (rmatch r None s)"
    by (auto simp: firstMatch_def split: list.splits)
  from rmatch_minLen [OF this] assms(2) have n: "n \<noteq> 0" by simp
  from execAll_total [OF assms(2)] obtain ms where
    "execAll r (prevAt None s (0 + n)) (drop (0 + n) s) = Some ms" by blast
  with exec_firstMatch [OF assms(1)] n
  have "execAll r None s = Some ((0, n, g) # map (\<lambda>(j, m, h). (0 + n + j, m, h)) ms)"
    by (subst execAll.simps) simp
  then show ?thesis by blast
qed

lemma captures_first:
  assumes "firstMatch r None s = Some (n, Some t)" and "0 < minLen r"
  shows "\<exists>rest. captures r s = t # rest"
proof -
  from execAll_first [OF assms] obtain ms where "execAll r None s = Some ((0, n, Some t) # ms)"
    by blast
  then show ?thesis by (simp add: captures_def)
qed

lemma captures_named_then:
  assumes "CHR ''}'' \<notin> set g"
  shows "\<exists>rest. captures namedImportPattern
                  (''import {'' @ g @ ''} from \"your-package-name\"'' @ post) = g # rest"
proof -
  let ?k = "NotIn [Ch (CHR ''}'')]"
  let ?tail = "''from \"your-package-name\"'' @ post"
  from assms have g: "list_all (inClass ?k) g" by (auto simp: list_all_iff)
  have t4: "firstMatch (cat (Lit ''}'' # Many1 space # fromTarget)) q (''}'' @ '' '' @ ?tail)
            = Some (1 + (1 + 24), None)" for q
    using firstMatch_cat_Lit [of "Many1 space # fromTarget" "'' '' @ ?tail" "1 + 24" None "''}''" q]
      firstMatch_cat_Many1 [of "'' ''" space ?tail fromTarget 24 None]
      fromTarget_then [of _ post] space1 by simp
  have t3: "firstMatch (cat (Group (Many ?k) # Lit ''}'' # Many1 space # fromTarget)) q
              (g @ ''}'' @ '' '' @ ?tail) = Some (length g + 26, Some g)" for q
    using firstMatch_cat_GroupMany [OF g, of "''}'' @ '' '' @ ?tail"
        "Lit ''}'' # Many1 space # fromTarget" 26 q] t4 by simp
  have t2: "firstMatch (cat (Lit ''{'' # Group (Many ?k) # Lit ''}'' # Many1 space # fromTarget)) q
              (''{'' @ g @ ''}'' @ '' '' @ ?tail) = Some (1 + (length g + 26), Some g)" for q
    using firstMatch_cat_Lit [of _ "g @ ''}'' @ '' '' @ ?tail" "length g + 26" "Some g" "''{''" q] t3
    by simp
  have t1: "firstMatch (cat (Many1 space # Lit ''{'' # Group (Many ?k) # Lit ''}'' # Many1 space
                # fromTarget)) q
              ('' '' @ ''{'' @ g @ ''}'' @ '' '' @ ?tail) = Some (1 + (1 + (length g + 26)), Some g)" for q
    using firstMatch_cat_Many1 [of "'' ''" space "''{'' @ g @ ''}'' @ '' '' @ ?tail" _
        "1 + (length g + 26)" "Some g" q] t2 space1 by (simp add: space_def isSpace_def)
  have t0: "firstMatch namedImportPattern None
              (''import'' @ '' '' @ ''{'' @ g @ ''}'' @ '' '' @ ?tail)
            = Some (6 + (1 + (1 + (length g + 26))), Some g)"
    unfolding namedImportPattern_def append_Cons append_Nil
    using firstMatch_cat_Lit [of _ "'' '' @ ''{'' @ g @ ''}'' @ '' '' @ ?tail"
        "1 + (1 + (length g + 26))" "Some g" "''import''" None] t1 by simp
  from captures_first [OF t0 import_patterns_ok(2)]
  show ?thesis by simp
qed

lemma captures_require_then:
  assumes "CHR ''}'' \<notin> set g"
  shows "\<exists>rest. captures requirePattern
                  (''const {'' @ g @ ''} = require(\"your-package-name\")'' @ post) = g # rest"
proof -
  let ?k = "NotIn [Ch (CHR ''}'')]"
  let ?tail = "''= require(\"your-package-name\")'' @ post"
  from assms have g: "list_all (inClass ?k) g" by (auto simp: list_all_iff)
  have t4: "firstMatch (cat (Lit ''}'' # Many1 space # requireTarget)) q (''}'' @ '' '' @ ?tail)
            = Some (1 + (1 + 30), None)" for q
    using firstMatch_cat_Lit [of "Many1 space # requireTarget" "'' '' @ ?tail" "1 + 30" None "''}''" q]
      firstMatch_cat_Many1 [of "'' ''" space ?tail requireTarget 30 None]
      requireTarget_then [of _ post] space1 by simp
  have t3: "firstMatch (cat (Group (Many ?k) # Lit ''}'' # Many1 space # requireTarget)) q
              (g @ ''}'' @ '' '' @ ?tail) = Some (length g + 32, Some g)" for q
    using firstMatch_cat_GroupMany [OF g, of "''}'' @ '' '' @ ?tail"
        "Lit ''}'' # Many1 space # requireTarget" 32 q] t4 by simp
  have t2: "firstMatch (cat (Lit ''{'' # Group (Many ?k) # Lit ''}'' # Many1 space # requireTarget)) q
              (''{'' @ g @ ''}'' @ '' '' @ ?tail) = Some (1 + (length g + 32), Some g)" for q
    using firstMatch_cat_Lit [of _ "g @ ''}'' @ '' '' @ ?tail" "length g + 32" "Some g" "''{''" q] t3
    by simp
  have t1: "firstMatch (cat (Many1 space # Lit ''{'' # Group (Many ?k) # Lit ''}'' # Many1 space
                # requireTarget)) q
              ('' '' @ ''{'' @ g @ ''}'' @ '' '' @ ?tail) = Some (1 + (1 + (length g + 32)), Some g)" for q
    using firstMatch_cat_Many1 [of "'' ''" space "''{'' @ g @ ''}'' @ '' '' @ ?tail" _
        "1 + (length g + 32)" "Some g" q] t2 space1 by (simp add: space_def isSpace_def)
  have t0: "firstMatch requirePattern None
              (''const'' @ '' '' @ ''{'' @ g @ ''}'' @ '' '' @ ?tail)
            = Some (5 + (1 + (1 + (length g + 32))), Some g)"
    unfolding requirePattern_def append_Cons append_Nil
    using firstMatch_cat_declKeyword [of _ "'' '' @ ''{'' @ g @ ''}'' @ '' '' @ ?tail"
        "1 + (1 + (length g + 32))" "Some g" None] t1 by simp
  from captures_first [OF t0 import_patterns_ok(8)]
  show ?thesis by simp
qed

section \<open>Claims\<close>

text \<open>
  C1 (as amended). For a renamed binding of a named import list or of a destructured
  require, the Import Extractor registers the original name (the text before \<open>as\<close> or
  before the colon), not the alias. In a file in which no bound name is a name of
  \<open>Object.prototype\<close>: every name that \<^const>\<open>namedComponents\<close> or
  \<^const>\<open>requireComponents\<close> yields for a matched binding list becomes a key of the Symbol
  Table mapped to a set containing the file, and the keys of the table grow by the names
  of \<^const>\<open>importedNames\<close> only. For the file text
  \<open>import { A, B as C } from "your-package-name"\<close> (or
  \<open>const { A, B: C } = require("your-package-name")\<close>) the loop visits the binding list,
  and the names of the binding list are \<open>A\<close> and \<open>B\<close>; when other text follows the statement,
  the binding list is the first that the loop visits. \<open>A\<close>, \<open>B\<close> and \<open>C\<close> are made of word
  characters.
\<close>

theorem C1_original_name_registered:
  assumes "set (importedNames content) \<inter> set objectPrototypeKeys = {}"
    and "wordName A" and "wordName B" and "wordName C"
  shows "(\<exists>cu'. findImports content filePath cu = Some (Normal cu')
            \<and> (\<forall>g \<in> set (captures namedImportPattern content).
                  \<forall>k \<in> set (namedComponents g). filePath \<in> set (instances cu' k))
            \<and> (\<forall>g \<in> set (captures requirePattern content).
                  \<forall>k \<in> set (requireComponents g). filePath \<in> set (instances cu' k))
            \<and> fst ` set cu' = fst ` set cu \<union> set (importedNames content))
         \<and> captures namedImportPattern
               (''import {'' @ ('' '' @ A @ '', '' @ B @ '' as '' @ C @ '' '')
                 @ ''} from \"your-package-name\"'')
             = ['' '' @ A @ '', '' @ B @ '' as '' @ C @ '' '']
         \<and> namedComponents ('' '' @ A @ '', '' @ B @ '' as '' @ C @ '' '') = [A, B]
         \<and> captures requirePattern
               (''const {'' @ ('' '' @ A @ '', '' @ B @ '': '' @ C @ '' '')
                 @ ''} = require(\"your-package-name\")'')
             = ['' '' @ A @ '', '' @ B @ '': '' @ C @ '' '']
         \<and> requireComponents ('' '' @ A @ '', '' @ B @ '': '' @ C @ '' '') = [A, B]
         \<and> (\<exists>rest. captures namedImportPattern
                      (''import {'' @ ('' '' @ A @ '', '' @ B @ '' as '' @ C @ '' '')
                        @ ''} from \"your-package-name\"'' @ post)
                    = ('' '' @ A @ '', '' @ B @ '' as '' @ C @ '' '') # rest)
         \<and> (\<exists>rest. captures requirePattern
                      (''const {'' @ ('' '' @ A @ '', '' @ B @ '': '' @ C @ '' '')
                        @ ''} = require(\"your-package-name\")'' @ post)
                    = ('' '' @ A @ '', '' @ B @ '': '' @ C @ '' '') # rest)"
proof -
  let ?cu = "addAll filePath cu (importedNames content)"
  have nb: "CHR ''}'' \<notin> set ('' '' @ A @ '', '' @ B @ '' as '' @ C @ '' '')"
    "CHR ''}'' \<notin> set ('' '' @ A @ '', '' @ B @ '': '' @ C @ '' '')"
    using assms(2-4) by (auto dest: word_set simp: isWord_def)
  have 1: "findImports content filePath cu = Some (Normal ?cu)"
    by (rule findImports_Normal [OF assms(1)])
  have 2: "filePath \<in> set (instances ?cu k)"
    if "g \<in> set (captures namedImportPattern content)" "k \<in> set (namedComponents g)" for g k
  proof -
    from that have "k \<in> set (importedNames content)"
      by (auto simp: importedNames_def namedNames_def)
    then show ?thesis by (simp add: instances_addAll)
  qed
  have 3: "filePath \<in> set (instances ?cu k)"
    if "g \<in> set (captures requirePattern content)" "k \<in> set (requireComponents g)" for g k
  proof -
    from that have "k \<in> set (importedNames content)"
      by (auto simp: importedNames_def requireNames_def)
    then show ?thesis by (simp add: instances_addAll)
  qed
  have 4: "fst ` set ?cu = fst ` set cu \<union> set (importedNames content)"
    by (rule keys_addAll)
  from 1 2 3 4 have 5: "\<exists>cu'. findImports content filePath cu = Some (Normal cu')
            \<and> (\<forall>g \<in> set (captures namedImportPattern content).
                  \<forall>k \<in> set (namedComponents g). filePath \<in> set (instances cu' k))
            \<and> (\<forall>g \<in> set (captures requirePattern content).
                  \<forall>k \<in> set (requireComponents g). filePath \<in> set (instances cu' k))
            \<and> fst ` set cu' = fst ` set cu \<union> set (importedNames content)"
    by blast
  from 5 captures_named_idiom [OF nb(1)] namedComponents_idiom [OF assms(2-4)]
    captures_require_idiom [OF nb(2)] requireComponents_idiom [OF assms(2-4)]
    captures_named_then [OF nb(1), of post] captures_require_then [OF nb(2), of post]
  show ?thesis by (intro conjI)
qed

text \<open>C1, witness: the file text \<open>import { A, B as C } from "your-package-name"\<close>.\<close>

theorem C1_witness:
  "set (importedNames exampleNamed) \<inter> set objectPrototypeKeys = {}
   \<and> wordName ''A'' \<and> wordName ''B'' \<and> wordName ''C''
   \<and> captures namedImportPattern exampleNamed = ['' A, B as C '']
   \<and> (\<exists>cu'. findImports exampleNamed ''a.js'' [] = Some (Normal cu')
          \<and> ''a.js'' \<in> set (instances cu' ''A'') \<and> ''a.js'' \<in> set (instances cu' ''B'')
          \<and> fst ` set cu' = {''A'', ''B''})"
proof -
  have h: "set (importedNames exampleNamed) \<inter> set objectPrototypeKeys = {}" by code_simp
  have w: "wordName ''A''" "wordName ''B''" "wordName ''C''" by code_simp+
  have c: "captures namedImportPattern exampleNamed = ['' A, B as C '']" by code_simp
  have n: "importedNames exampleNamed = [''A'', ''B'']" by code_simp
  have nc: "namedComponents '' A, B as C '' = [''A'', ''B'']" by code_simp
  note t = C1_original_name_registered [OF h w, of "''a.js''" "[]" "[]", THEN conjunct1]
  from t obtain cu' where f: "findImports exampleNamed ''a.js'' [] = Some (Normal cu')"
    and a: "\<forall>g \<in> set (captures namedImportPattern exampleNamed).
              \<forall>k \<in> set (namedComponents g). ''a.js'' \<in> set (instances cu' k)"
    and b: "\<forall>g \<in> set (captures requirePattern exampleNamed).
              \<forall>k \<in> set (requireComponents g). ''a.js'' \<in> set (instances cu' k)"
    and ks: "fst ` set cu' = fst ` set ([] :: string list obj) \<union> set (importedNames exampleNamed)"
    by (elim exE conjE)
  from a [unfolded c] nc
  have m: "''a.js'' \<in> set (instances cu' ''A'')" "''a.js'' \<in> set (instances cu' ''B'')"
    by simp_all
  from ks n have k: "fst ` set cu' = {''A'', ''B''}" by simp
  from f m k
  have "\<exists>cu'. findImports exampleNamed ''a.js'' [] = Some (Normal cu')
          \<and> ''a.js'' \<in> set (instances cu' ''A'') \<and> ''a.js'' \<in> set (instances cu' ''B'')
          \<and> fst ` set cu' = {''A'', ''B''}"
    by (intro exI [of _ cu'] conjI)
  with h w c show ?thesis by (intro conjI)
qed

text \<open>C1, counterexample to the claim as stated: for the two idioms of the claim the
  table gets the keys \<open>A\<close> and \<open>B\<close>, and no key \<open>C\<close>.\<close>

theorem C1_counterexample:
  "findImports exampleNamed ''a.js'' [] = Some (Normal [(''A'', [''a.js'']), (''B'', [''a.js''])])
   \<and> findImports exampleRequire ''a.js'' [] = Some (Normal [(''A'', [''a.js'']), (''B'', [''a.js''])])
   \<and> map_of [(''A'', [''a.js'']), (''B'', [''a.js''])] ''C'' = None"
  by code_simp

text \<open>
  The default-import loop on a file in which no bound name is a name of
  \<open>Object.prototype\<close>: for every match, the captured name becomes a key of the Symbol
  Table mapped to a set containing the file, unless it is the target module name; then
  the match creates no entry. The loop visits the text \<open>X\<close> for the file text
  \<open>import X from "your-package-name"\<close>.
\<close>

lemma default_import_registered:
  assumes "set (importedNames content) \<inter> set objectPrototypeKeys = {}" and "bindingName X"
  shows "(\<exists>cu'. findImports content filePath cu = Some (Normal cu')
            \<and> (\<forall>t \<in> set (captures defaultImportPattern content).
                  trim t \<noteq> targetPackageName \<longrightarrow> filePath \<in> set (instances cu' (trim t)))
            \<and> (targetPackageName \<in> fst ` set cu' \<longrightarrow>
                  targetPackageName \<in> fst ` set cu \<union> set (namedNames content)
                    \<union> set (namespaceNames content) \<union> set (requireNames content)
                    \<union> set (requireDefaultNames content))
            \<and> ((\<forall>t \<in> set (captures defaultImportPattern content). trim t = targetPackageName)
                 \<and> namedNames content = [] \<and> namespaceNames content = []
                 \<and> requireNames content = [] \<and> requireDefaultNames content = []
                 \<longrightarrow> cu' = cu))
         \<and> captures defaultImportPattern (''import '' @ X @ '' from \"your-package-name\"'') = [X]
         \<and> trim X = X"
proof -
  let ?cu = "addAll filePath cu (importedNames content)"
  have 1: "findImports content filePath cu = Some (Normal ?cu)"
    by (rule findImports_Normal [OF assms(1)])
  have 2: "filePath \<in> set (instances ?cu (trim t))"
    if "t \<in> set (captures defaultImportPattern content)" "trim t \<noteq> targetPackageName" for t
  proof -
    from that have "trim t \<in> set (importedNames content)"
      by (auto simp: in_importedNames defaultNames_def)
    then show ?thesis by (simp add: instances_addAll)
  qed
  have 3: "targetPackageName \<in> fst ` set cu \<union> set (namedNames content)
             \<union> set (namespaceNames content) \<union> set (requireNames content)
             \<union> set (requireDefaultNames content)"
    if "targetPackageName \<in> fst ` set ?cu"
  proof -
    have "targetPackageName \<notin> set (defaultNames content)" by (simp add: defaultNames_def)
    with that show ?thesis unfolding keys_addAll by (auto simp: in_importedNames)
  qed
  have 4: "?cu = cu"
    if "\<forall>t \<in> set (captures defaultImportPattern content). trim t = targetPackageName"
      "namedNames content = []" "namespaceNames content = []"
      "requireNames content = []" "requireDefaultNames content = []"
  proof -
    from that(1) have "defaultNames content = []"
      by (auto simp: defaultNames_def filter_empty_conv)
    with that show ?thesis by (simp add: importedNames_def)
  qed
  from 1 2 3 4 captures_default_idiom [OF assms(2)] bindingName_trim [OF assms(2)]
  show ?thesis by blast
qed

text \<open>
  C3. The claim fails on a file that binds a name of \<open>Object.prototype\<close>. For the file
  text \<open>import toString from "your-package-name"\<close> the loop visits the name \<open>toString\<close>,
  which is not the target module name; the lookup \<open>componentUsage["toString"]\<close> finds the
  inherited function, so no set is created and the call of \<open>add\<close> throws: no entry is
  added, and the walk leaves the tables empty. In the second text the named import of
  \<open>valueOf\<close> throws before the default import of \<open>Button\<close> is reached. For comparison,
  \<open>import Button from "your-package-name"\<close> alone registers \<open>Button\<close>, and the guarded
  \<open>import your-package-name from "your-package-name"\<close> registers nothing and does not
  throw.
\<close>

theorem C3_inherited_name_not_registered:
  "captures defaultImportPattern exampleInherited = [''toString'']
   \<and> ''toString'' \<noteq> targetPackageName
   \<and> findImports exampleInherited ''a.js'' [] = Some (Thrown [])
   \<and> walkFiles [(''a.js'', Some exampleInherited)] initialState
       = Some \<lparr>componentUsage = [], componentInstancesJSX = [], componentInstancesFunc = []\<rparr>
   \<and> captures defaultImportPattern exampleInheritedFirst = [''Button'']
   \<and> findImports exampleInheritedFirst ''a.js'' [] = Some (Thrown [])
   \<and> walkFiles [(''a.js'', Some exampleInheritedFirst)] initialState
       = Some \<lparr>componentUsage = [], componentInstancesJSX = [], componentInstancesFunc = []\<rparr>
   \<and> findImports exampleDefault ''a.js'' [] = Some (Normal [(''Button'', [''a.js''])])
   \<and> findImports exampleSelfImport ''a.js'' [] = Some (Normal [])"
  by code_simp

text \<open>
  The default require loop has no self-reference guard. On a file in which no bound name
  is a name of \<open>Object.prototype\<close>, for every match of
  \<open>const X = require("your-package-name")\<close> the name \<open>X\<close> becomes a key of the Symbol Table
  mapped to a set containing the file, also when \<open>X\<close> is the target module name, which the
  group of the pattern can capture.
\<close>

lemma require_default_unguarded:
  assumes "set (importedNames content) \<inter> set objectPrototypeKeys = {}" and "bindingName X"
  shows "(\<exists>cu'. findImports content filePath cu = Some (Normal cu')
            \<and> (\<forall>t \<in> set (captures requireDefaultPattern content).
                  filePath \<in> set (instances cu' (trim t))))
         \<and> captures requireDefaultPattern (''const '' @ X @ '' = require(\"your-package-name\")'') = [X]
         \<and> trim X = X \<and> bindingName targetPackageName"
proof -
  let ?cu = "addAll filePath cu (importedNames content)"
  have 1: "findImports content filePath cu = Some (Normal ?cu)"
    by (rule findImports_Normal [OF assms(1)])
  have 2: "filePath \<in> set (instances ?cu (trim t))"
    if "t \<in> set (captures requireDefaultPattern content)" for t
  proof -
    from that have "trim t \<in> set (importedNames content)"
      by (auto simp: in_importedNames requireDefaultNames_def)
    then show ?thesis by (simp add: instances_addAll)
  qed
  have 3: "bindingName targetPackageName"
    by (simp add: bindingName_def targetPackageName_def isSpace_def)
  from 1 2 3 captures_requireDefault_idiom [OF assms(2)] bindingName_trim [OF assms(2)]
  show ?thesis by blast
qed

text \<open>
  C9. The claim fails on a file that also binds a name of \<open>Object.prototype\<close>. The second
  statement of the text
  \<open>import { toString } from "your-package-name"; const your-package-name = require("your-package-name")\<close>
  is a match of the default require pattern with the target module name for \<open>X\<close>, but the
  loop over the named imports, which runs first, throws at \<open>toString\<close>: the default require
  loop is never reached, and the module name is not added. For comparison, the second
  statement alone registers the module name.
\<close>

theorem C9_require_default_not_reached:
  "captures requireDefaultPattern exampleInheritedRequire = [targetPackageName]
   \<and> captures namedImportPattern exampleInheritedRequire = ['' toString '']
   \<and> findImports exampleInheritedRequire ''a.js'' [] = Some (Thrown [])
   \<and> walkFiles [(''a.js'', Some exampleInheritedRequire)] initialState
       = Some \<lparr>componentUsage = [], componentInstancesJSX = [], componentInstancesFunc = []\<rparr>
   \<and> captures requireDefaultPattern exampleSelfRequire = [targetPackageName]
   \<and> findImports exampleSelfRequire ''a.js'' []
       = Some (Normal [(''your-package-name'', [''a.js''])])"
  by code_simp

text \<open>
  C4 (as amended). For a plain symbol \<open>S\<close> made of word characters (the empty name that a
  trailing comma registers included), a call-style match starts only where \<open>S\<close> stands
  followed by optional white space and then \<open>(\<close>, not preceded by \<open>.\<close> or \<open><\<close>; the loop body
  records one entry per match when the file has no markup-style entry for \<open>S\<close>, and none
  otherwise. In particular no match starts at the \<open>S\<close> of an occurrence \<open>.S(\<close>.
\<close>

theorem C4_call_sites:
  assumes "list_all isWord S"
  shows "(\<forall>(i, n, g) \<in> set (callMatches content S). callSiteAt S content i n)
         \<and> (\<exists>st'. plainUsages content filePath S st = Some st'
               \<and> instances (componentInstancesFunc st') S
                   = instances (componentInstancesFunc st) S
                     @ replicate (if filePath \<in> set (instances (componentInstancesJSX st') S) then 0
                                  else length (callMatches content S)) filePath)
         \<and> (\<forall>(i, n, g) \<in> set (callMatches (pre @ ''.'' @ S @ ''('' @ post) S). i \<noteq> length pre + 1)"
proof -
  have sound: "callSiteAt S src i n" if "(i, n, g) \<in> set (callMatches src S)" for src i n g
  proof -
    from matchesOf_sound [OF usage_patterns_ok(2) that [unfolded callMatches_def]]
    obtain rest where "rmatch (functionCallPattern S) (prevAt None src i) (drop i src) = (n, g) # rest"
      by blast
    then have "(n, g) \<in> set (rmatch (functionCallPattern S) (prevAt None src i) (drop i src))"
      by simp
    from functionCall_rmatch [OF this] show ?thesis by (simp add: callSiteAt_def)
  qed
  have 1: "\<forall>(i, n, g) \<in> set (callMatches content S). callSiteAt S content i n"
    using sound by blast
  have 2: "\<exists>st'. plainUsages content filePath S st = Some st'
               \<and> instances (componentInstancesFunc st') S
                   = instances (componentInstancesFunc st) S
                     @ replicate (if filePath \<in> set (instances (componentInstancesJSX st') S) then 0
                                  else length (callMatches content S)) filePath"
    by (simp add: plainUsages_eq instances_funpow)
  have 3: "i \<noteq> length pre + 1"
    if "(i, n, g) \<in> set (callMatches (pre @ ''.'' @ S @ ''('' @ post) S)" for i n g
  proof
    assume i: "i = length pre + 1"
    have "prevAt None (pre @ ''.'' @ S @ ''('' @ post) (length pre + 1) = Some (CHR ''.'')"
      using prevAt_after [of None pre "CHR ''.''" "S @ ''('' @ post"] by simp
    with sound [OF that] i show False by (simp add: callSiteAt_def)
  qed
  from 1 2 3 show ?thesis by blast
qed

text \<open>C4, witness: in \<open>a.Button(1); Button(2)\<close> only the second occurrence is a match. For
  the empty name, the match in \<open>foo(1)\<close> is at the parenthesis.\<close>

theorem C4_witness:
  "list_all isWord ''Button'' \<and> list_all isWord []
   \<and> callMatches ''a.Button(1); Button(2)'' ''Button'' = [(13, 7, None)]
   \<and> callSiteAt ''Button'' ''a.Button(1); Button(2)'' 13 7
   \<and> plainUsages ''a.Button(1); Button(2)'' ''a.js'' ''Button'' initialState
       = Some (initialState\<lparr>componentInstancesFunc := [(''Button'', [''a.js''])]\<rparr>)
   \<and> callMatches ''foo(1)'' [] = [(3, 1, None)]
   \<and> callSiteAt [] ''foo(1)'' 3 1"
proof -
  have w: "list_all isWord ''Button''" "list_all isWord []" by code_simp+
  have m: "callMatches ''a.Button(1); Button(2)'' ''Button'' = [(13, 7, None)]" by code_simp
  have p: "plainUsages ''a.Button(1); Button(2)'' ''a.js'' ''Button'' initialState
       = Some (initialState\<lparr>componentInstancesFunc := [(''Button'', [''a.js''])]\<rparr>)" by code_simp
  have e: "callMatches ''foo(1)'' [] = [(3, 1, None)]" by code_simp
  from C4_call_sites [OF w(1), of "''a.Button(1); Button(2)''", THEN conjunct1] m
  have c1: "callSiteAt ''Button'' ''a.Button(1); Button(2)'' 13 7" by simp
  from C4_call_sites [OF w(2), of "''foo(1)''", THEN conjunct1] e
  have c2: "callSiteAt [] ''foo(1)'' 3 1" by simp
  from w m c1 p e c2 show ?thesis by (intro conjI)
qed

text \<open>C4, counterexample to the claim as stated: in \<open>Button (1)\<close> the symbol is followed
  by a space, not by \<open>(\<close>, and a call-style entry is recorded.\<close>

theorem C4_counterexample:
  "plainUsages exampleSpacedCall ''a.js'' ''Button'' initialState
     = Some (initialState\<lparr>componentInstancesFunc := [(''Button'', [''a.js''])]\<rparr>)
   \<and> exampleSpacedCall = ''Button'' @ '' (1)''"
  by code_simp

text \<open>
  Markup-style matches of a symbol made of word characters, at least one. A match of a
  plain symbol \<open>S\<close> starts only where \<open><\<close> stands directly before \<open>S\<close> and \<open>S\<close> is followed by
  a character that is neither a word character nor a hyphen; one entry is recorded per
  match. So no match starts at a closing tag \<open></S>\<close> (the text \<open></S>\<close> alone has no
  match), and none where \<open><S\<close> is followed by a word character or a hyphen. The same
  holds of a namespace member: a match of the pattern of the alias \<open>a\<close> captures a member
  name \<open>m\<close> where \<open><a.m\<close> stands followed by such a character, one entry is recorded per
  match under the key \<open>a.m\<close>, and no match starts at \<open></a.m>\<close>.
\<close>

lemma markup_matches_open_tags_only:
  assumes "wordName S" and "wordName a"
  shows "(\<forall>(i, n, g) \<in> set (jsxMatches content S). openTagAt S content i)
         \<and> (\<exists>st'. plainUsages content filePath S st = Some st'
               \<and> instances (componentInstancesJSX st') S
                   = instances (componentInstancesJSX st) S
                     @ replicate (length (jsxMatches content S)) filePath)
         \<and> jsxMatches (''</'' @ S @ ''>'') S = []
         \<and> (\<forall>(i, n, g) \<in> set (jsxMatches (pre @ ''</'' @ S @ ''>'' @ post) S). i \<noteq> length pre)
         \<and> (inClass identChar c \<longrightarrow>
              (\<forall>(i, n, g) \<in> set (jsxMatches (pre @ ''<'' @ S @ c # post) S). i \<noteq> length pre))
         \<and> (\<forall>(i, n, g) \<in> set (matchesOf (namespaceJSXPattern a) content).
              \<exists>m. g = Some m \<and> m \<noteq> [] \<and> list_all (inClass memberChars) m
                \<and> openTagAt (a @ ''.'' @ m) content i)
         \<and> (\<exists>st'. namespaceUsages content filePath a st = Some st'
               \<and> (\<forall>k. instances (componentInstancesJSX st') k
                     = instances (componentInstancesJSX st) k
                       @ replicate (count_list (nsJSXNames content a) k) filePath))
         \<and> (\<forall>(i, n, g) \<in> set (matchesOf (namespaceJSXPattern a)
                                   (pre @ ''</'' @ a @ ''.'' @ member @ ''>'' @ post)).
              i \<noteq> length pre)"
proof -
  have 1: "\<forall>(i, n, g) \<in> set (jsxMatches content S). openTagAt S content i"
    using jsx_sound by blast
  have 2: "\<exists>st'. plainUsages content filePath S st = Some st'
               \<and> instances (componentInstancesJSX st') S
                   = instances (componentInstancesJSX st) S
                     @ replicate (length (jsxMatches content S)) filePath"
    by (simp add: plainUsages_eq instances_funpow)
  have 3: "jsxMatches (''</'' @ S @ ''>'') S = []"
    by (rule no_jsx_in_closing_tag [OF assms(1)])
  have 4: "i \<noteq> length pre"
    if "(i, n, g) \<in> set (jsxMatches (pre @ ''</'' @ S @ ''>'' @ post) S)" for i n g
    using jsx_sound [OF that] not_open_at_closing [OF assms(1), of "[]" pre "''>'' @ post"]
    by auto
  have 5: "i \<noteq> length pre"
    if "inClass identChar c" "(i, n, g) \<in> set (jsxMatches (pre @ ''<'' @ S @ c # post) S)"
    for i n g
    using jsx_sound [OF that(2)] not_open_before_ident [OF that(1), of S pre post] by auto
  have 6: "\<forall>(i, n, g) \<in> set (matchesOf (namespaceJSXPattern a) content).
              \<exists>m. g = Some m \<and> m \<noteq> [] \<and> list_all (inClass memberChars) m
                \<and> openTagAt (a @ ''.'' @ m) content i"
    using nsJSX_sound by blast
  have 7: "\<exists>st'. namespaceUsages content filePath a st = Some st'
               \<and> (\<forall>k. instances (componentInstancesJSX st') k
                     = instances (componentInstancesJSX st) k
                       @ replicate (count_list (nsJSXNames content a) k) filePath)"
    by (simp add: namespaceUsages_eq instances_foldl_push)
  have 8: "i \<noteq> length pre"
    if "(i, n, g) \<in> set (matchesOf (namespaceJSXPattern a)
                            (pre @ ''</'' @ a @ ''.'' @ member @ ''>'' @ post))" for i n g
  proof
    assume i: "i = length pre"
    from nsJSX_sound [OF that] obtain m where
      "openTagAt (a @ ''.'' @ m) (pre @ ''</'' @ a @ ''.'' @ member @ ''>'' @ post) i" by blast
    with i not_open_at_closing [OF assms(2), of "''.'' @ m" pre "''.'' @ member @ ''>'' @ post"]
    show False by simp
  qed
  from 1 2 3 4 5 6 7 8 show ?thesis by blast
qed

text \<open>
  C5. The claim fails in two ways. A binding list with a trailing comma,
  \<open>import { Card, } from "your-package-name"\<close>, registers the empty name as a symbol; its
  markup pattern matches every \<open><\<close> that is not followed by a word character or a
  hyphen, so the closing tag \<open></Card>\<close> of the text is recorded as a markup-style entry
  (under the empty key), and \<open></>\<close> is a match. And the character \<open>$\<close>, which can continue
  an identifier, is not in the class of the look-ahead: \<open><Card$ />\<close> is recorded as a usage
  of \<open>Card\<close>. For comparison, in the text
  \<open><Card x=1></Card><Cardy/><Card-x/><NS.Tab/></NS.Tab>\<close> the only match of \<open>Card\<close> is the
  opening tag, and the only match of the alias \<open>NS\<close> is \<open><NS.Tab/>\<close>.
\<close>

theorem C5_closing_tag_recorded:
  "captures namedImportPattern exampleTrailingComma = ['' Card, '']
   \<and> namedComponents '' Card, '' = [''Card'', []]
   \<and> jsxMatches exampleTrailingComma [] = [(49, 7, None)]
   \<and> take 7 (drop 49 exampleTrailingComma) = ''</Card>''
   \<and> walkFiles [(''a.js'', Some exampleTrailingComma)] initialState
       = Some \<lparr>componentUsage = [(''Card'', [''a.js'']), ([], [''a.js''])],
               componentInstancesJSX = [(''Card'', [''a.js'']), ([], [''a.js''])],
               componentInstancesFunc = []\<rparr>
   \<and> jsxMatches ''</>'' [] = [(0, 3, None)]
   \<and> jsxMatches ''<Card$ />'' ''Card'' = [(0, 9, None)]
   \<and> walkFiles [(''a.js'', Some ''import { Card } from \"your-package-name\"; <Card$ />'')]
        initialState
       = Some \<lparr>componentUsage = [(''Card'', [''a.js''])],
               componentInstancesJSX = [(''Card'', [''a.js''])],
               componentInstancesFunc = []\<rparr>
   \<and> jsxMatches exampleTags ''Card'' = [(0, 10, None)]
   \<and> matchesOf (namespaceJSXPattern ''NS'') exampleTags = [(34, 9, Some ''Tab'')]"
  by code_simp

text \<open>
  C6 (as amended). The search for a symbol is not limited to the files that import it,
  but it follows the walk. In a walk that processes the file \<open>B\<close> after the files \<open>pre\<close>:
  if a file of \<open>pre\<close> imports the plain symbol \<open>S\<close>, then \<open>B\<close> is searched for \<open>S\<close>, whether or
  not \<open>B\<close> imports \<open>S\<close>: every markup-style match of \<open>S\<close> in the text of \<open>B\<close> is recorded, and
  every call-style match of \<open>S\<close> is recorded as a call-style entry of \<open>S\<close> for \<open>B\<close> unless the
  text has a markup-style match of \<open>S\<close>; a text that begins with \<open>S(\<close> has a call-style
  match there. If neither \<open>B\<close> nor a file of \<open>pre\<close> imports \<open>S\<close>, then \<open>B\<close> is not searched for
  \<open>S\<close>: nothing is recorded for \<open>S\<close> in \<open>B\<close>, whatever the files after \<open>B\<close> import. The paths
  of the walk are distinct, the names bound in \<open>B\<close> and in the files before it are not
  names of \<open>Object.prototype\<close>, and the names bound in the walk are made of word
  characters (after the \<open>*\<close> of a namespace key).
\<close>

theorem C6_search_scope:
  assumes "list_all isWord S"
    and "distinct (map fst (pre @ (B, Some content) # post))"
    and "plainNames (pre @ [(B, Some content)])"
    and "\<forall>k \<in> importedBy (pre @ (B, Some content) # post). symbolKey k"
  shows "(\<exists>st. walkFiles (pre @ (B, Some content) # post) initialState = Some st
            \<and> (S \<in> importedBy pre \<longrightarrow>
                 count_list (instances (componentInstancesJSX st) S) B
                   = length (jsxMatches content S)
                 \<and> count_list (instances (componentInstancesFunc st) S) B
                   = (if jsxMatches content S = [] then length (callMatches content S) else 0))
            \<and> (S \<notin> importedBy (pre @ [(B, Some content)]) \<longrightarrow>
                 B \<notin> set (instances (componentInstancesJSX st) S)
                 \<and> B \<notin> set (instances (componentInstancesFunc st) S)))
         \<and> (S \<noteq> [] \<longrightarrow> (\<exists>ms. callMatches (S @ ''('' @ rest) S = (0, length S + 1, None) # ms))"
proof -
  from walk_plain_counts [OF assms(1-3)] obtain st where
    w: "walkFiles (pre @ (B, Some content) # post) initialState = Some st"
    and j: "count_list (instances (componentInstancesJSX st) S) B
            = (if S \<in> importedBy (pre @ [(B, Some content)])
               then length (jsxMatches content S) else 0)"
    and c: "count_list (instances (componentInstancesFunc st) S) B
            = (if S \<in> importedBy (pre @ [(B, Some content)]) \<and> jsxMatches content S = []
               then length (callMatches content S) else 0)"
    by (elim exE conjE)
  have 1: "S \<in> importedBy pre \<longrightarrow>
             count_list (instances (componentInstancesJSX st) S) B
               = length (jsxMatches content S)
             \<and> count_list (instances (componentInstancesFunc st) S) B
               = (if jsxMatches content S = [] then length (callMatches content S) else 0)"
  proof (rule impI)
    assume "S \<in> importedBy pre"
    then have "S \<in> importedBy (pre @ [(B, Some content)])" by simp
    with j c show "count_list (instances (componentInstancesJSX st) S) B
               = length (jsxMatches content S)
             \<and> count_list (instances (componentInstancesFunc st) S) B
               = (if jsxMatches content S = [] then length (callMatches content S) else 0)"
      by simp
  qed
  have 2: "S \<notin> importedBy (pre @ [(B, Some content)]) \<longrightarrow>
             B \<notin> set (instances (componentInstancesJSX st) S)
             \<and> B \<notin> set (instances (componentInstancesFunc st) S)"
  proof (rule impI)
    assume "S \<notin> importedBy (pre @ [(B, Some content)])"
    with j c have "count_list (instances (componentInstancesJSX st) S) B = 0"
      "count_list (instances (componentInstancesFunc st) S) B = 0"
      by (simp_all only: if_False simp_thms)
    then show "B \<notin> set (instances (componentInstancesJSX st) S)
             \<and> B \<notin> set (instances (componentInstancesFunc st) S)"
      by (simp only: count_list_0_notin simp_thms)
  qed
  have 3: "S \<noteq> [] \<longrightarrow> (\<exists>ms. callMatches (S @ ''('' @ rest) S = (0, length S + 1, None) # ms)"
    using call_at_start [of S rest] assms(1) by (simp add: wordName_def)
  from w 1 2 have "\<exists>st. walkFiles (pre @ (B, Some content) # post) initialState = Some st
            \<and> (S \<in> importedBy pre \<longrightarrow>
                 count_list (instances (componentInstancesJSX st) S) B
                   = length (jsxMatches content S)
                 \<and> count_list (instances (componentInstancesFunc st) S) B
                   = (if jsxMatches content S = [] then length (callMatches content S) else 0))
            \<and> (S \<notin> importedBy (pre @ [(B, Some content)]) \<longrightarrow>
                 B \<notin> set (instances (componentInstancesJSX st) S)
                 \<and> B \<notin> set (instances (componentInstancesFunc st) S))"
    by (intro exI [of _ st] conjI)
  with 3 show ?thesis by (intro conjI)
qed

text \<open>C6, counterexample to the claim as stated. In the first walk \<open>a.js\<close> imports
  \<open>Button\<close> and the text \<open>Button(1)\<close> of \<open>b.js\<close> matches, but \<open>b.js\<close> is processed first and
  nothing is recorded for it. In the second walk \<open>b.js\<close> is processed after \<open>a.js\<close> and its
  text has the match \<open>Button(\<close>, but no call-style entry is recorded: the text also has a
  markup-style match.\<close>

theorem C6_counterexample:
  "walkFiles [(''b.js'', Some exampleCallOnly), (''a.js'', Some exampleDefault)] initialState
     = Some \<lparr>componentUsage = [(''Button'', [''a.js''])], componentInstancesJSX = [],
             componentInstancesFunc = []\<rparr>
   \<and> importedNames exampleDefault = [''Button'']
   \<and> callMatches exampleCallOnly ''Button'' = [(0, 7, None)]
   \<and> walkFiles [(''a.js'', Some exampleDefault), (''b.js'', Some ''<Button/> Button(1)'')]
        initialState
     = Some \<lparr>componentUsage = [(''Button'', [''a.js''])],
             componentInstancesJSX = [(''Button'', [''b.js''])],
             componentInstancesFunc = []\<rparr>
   \<and> callMatches ''<Button/> Button(1)'' ''Button'' = [(10, 7, None)]"
  by code_simp

text \<open>C6, witness: the third file of the example never imports \<open>Button\<close> and its call is
  recorded; the first file is processed before the import and nothing is recorded for
  it.\<close>

theorem C6_witness:
  "list_all isWord ''Button''
   \<and> distinct (map fst exampleOrder)
   \<and> plainNames exampleOrder
   \<and> importedBy exampleOrder = {''Button''} \<and> symbolKey ''Button''
   \<and> ''Button'' \<in> importedBy [(''b.js'', Some exampleCallOnly), (''a.js'', Some exampleImportAndCall)]
   \<and> ''Button'' \<notin> importedBy [(''b.js'', Some exampleCallOnly)]
   \<and> importedNames exampleCallOnly = []
   \<and> jsxMatches exampleCallOnly ''Button'' = []
   \<and> callMatches exampleCallOnly ''Button'' = [(0, 7, None)]
   \<and> (\<exists>st. walkFiles exampleOrder initialState = Some st
          \<and> count_list (instances (componentInstancesFunc st) ''Button'') ''c.js'' = 1
          \<and> ''b.js'' \<notin> set (instances (componentInstancesJSX st) ''Button'')
          \<and> ''b.js'' \<notin> set (instances (componentInstancesFunc st) ''Button''))
   \<and> (\<exists>ms. callMatches (''Button'' @ ''('' @ ''1); Button(2)'') ''Button'' = (0, 7, None) # ms)
   \<and> walkFiles exampleOrder initialState
       = Some \<lparr>componentUsage = [(''Button'', [''a.js''])], componentInstancesJSX = [],
               componentInstancesFunc = [(''Button'', [''a.js'', ''c.js''])]\<rparr>"
proof -
  let ?b = "(''b.js'', Some exampleCallOnly)"
  let ?a = "(''a.js'', Some exampleImportAndCall)"
  let ?c = "(''c.js'', Some exampleCallOnly)"
  have w: "list_all isWord ''Button''" by code_simp
  have d: "distinct (map fst exampleOrder)" by code_simp
  have p: "plainNames exampleOrder" unfolding plainNames_def by code_simp
  have ib: "importedBy exampleOrder = {''Button''}" by code_simp
  have sk: "symbolKey ''Button''" by code_simp
  have k: "\<forall>k \<in> importedBy exampleOrder. symbolKey k" using ib sk by simp
  have i: "''Button'' \<in> importedBy [?b, ?a]" by code_simp
  have i0: "''Button'' \<notin> importedBy [?b]" by code_simp
  have n: "importedNames exampleCallOnly = []" by code_simp
  have j: "jsxMatches exampleCallOnly ''Button'' = []" by code_simp
  have m: "callMatches exampleCallOnly ''Button'' = [(0, 7, None)]" by code_simp
  have r: "walkFiles exampleOrder initialState
       = Some \<lparr>componentUsage = [(''Button'', [''a.js''])], componentInstancesJSX = [],
               componentInstancesFunc = [(''Button'', [''a.js'', ''c.js''])]\<rparr>" by code_simp
  have e: "[?b, ?a] @ ?c # [] = exampleOrder" "[?b, ?a] @ [?c] = exampleOrder"
    by (simp_all add: exampleOrder_def)
  have e0: "[] @ ?b # [?a, ?c] = exampleOrder" "[] @ [?b] = [?b]"
    by (simp_all add: exampleOrder_def)
  have p0: "plainNames [?b]" unfolding plainNames_def by code_simp
  note t = C6_search_scope [of "''Button''" "[?b, ?a]" "''c.js''" exampleCallOnly "[]" "[]",
      unfolded e, OF w d p k, THEN conjunct1]
  note t0 = C6_search_scope [of "''Button''" "[]" "''b.js''" exampleCallOnly "[?a, ?c]" "[]",
      unfolded e0, OF w d p0 k, THEN conjunct1]
  from t obtain st where s: "walkFiles exampleOrder initialState = Some st"
    and x: "''Button'' \<in> importedBy [?b, ?a] \<longrightarrow>
              count_list (instances (componentInstancesJSX st) ''Button'') ''c.js''
                = length (jsxMatches exampleCallOnly ''Button'')
              \<and> count_list (instances (componentInstancesFunc st) ''Button'') ''c.js''
                = (if jsxMatches exampleCallOnly ''Button'' = []
                   then length (callMatches exampleCallOnly ''Button'') else 0)"
    by (elim exE conjE)
  from t0 obtain st0 where s0: "walkFiles exampleOrder initialState = Some st0"
    and x0: "''Button'' \<notin> importedBy [?b] \<longrightarrow>
              ''b.js'' \<notin> set (instances (componentInstancesJSX st0) ''Button'')
              \<and> ''b.js'' \<notin> set (instances (componentInstancesFunc st0) ''Button'')"
    by (elim exE conjE)
  from s s0 have eq: "st0 = st" by simp
  from x [rule_format, OF i, THEN conjunct2] j m
  have z: "count_list (instances (componentInstancesFunc st) ''Button'') ''c.js'' = 1"
    by simp
  note y = x0 [rule_format, OF i0, unfolded eq]
  from s z y [THEN conjunct1] y [THEN conjunct2]
  have "\<exists>st. walkFiles exampleOrder initialState = Some st
          \<and> count_list (instances (componentInstancesFunc st) ''Button'') ''c.js'' = 1
          \<and> ''b.js'' \<notin> set (instances (componentInstancesJSX st) ''Button'')
          \<and> ''b.js'' \<notin> set (instances (componentInstancesFunc st) ''Button'')"
    by (intro exI [of _ st] conjI)
  moreover have ne: "''Button'' \<noteq> []" by simp
  from C6_search_scope [of "''Button''" "[?b, ?a]" "''c.js''" exampleCallOnly "[]" "''1); Button(2)''",
      unfolded e, OF w d p k, THEN conjunct2, rule_format, OF ne]
  have "\<exists>ms. callMatches (''Button'' @ ''('' @ ''1); Button(2)'') ''Button'' = (0, 7, None) # ms"
    by (simp add: eval_nat_numeral)
  ultimately show ?thesis using w d p ib sk i i0 n j m r by (intro conjI)
qed

text \<open>
  C10 (as amended). In a walk that processes the file \<open>F\<close> after the files \<open>pre\<close> and before
  the files \<open>post\<close>, the symbols searched for in \<open>F\<close> are those that \<open>F\<close> or a file of \<open>pre\<close>
  imports. For a plain symbol \<open>S\<close>: one markup-style entry is recorded for \<open>F\<close> per
  markup-style match of \<open>S\<close> in the text of \<open>F\<close> if \<open>F\<close> or a file of \<open>pre\<close> imports \<open>S\<close>, and
  none otherwise; one call-style entry is recorded per call-style match if moreover the
  text has no markup-style match of \<open>S\<close>, and none otherwise. So a markup-style occurrence
  of \<open>S\<close> in \<open>F\<close> is recorded if and only if \<open>S\<close> is imported by then, and a call-style
  occurrence if and only if moreover \<open>F\<close> has no markup-style occurrence of \<open>S\<close>. For a
  namespace alias \<open>a\<close> and a member key \<open>a.m\<close> the same holds with the key \<open>*a\<close> of the
  Symbol Table and the matches of the alias that name the member \<open>m\<close>. An occurrence in a
  file processed before the first importing file is never recorded, since no file is
  processed twice. The paths of the walk are distinct, the names bound in \<open>F\<close> and in the
  files before it are not names of \<open>Object.prototype\<close>, and the names bound in the walk
  are made of word characters (after the \<open>*\<close> of a namespace key).
\<close>

theorem C10_walk_order:
  assumes "list_all isWord S" and "list_all isWord a"
    and "distinct (map fst (pre @ (F, Some content) # post))"
    and "plainNames (pre @ [(F, Some content)])"
    and "\<forall>k \<in> importedBy (pre @ (F, Some content) # post). symbolKey k"
  shows "\<exists>st. walkFiles (pre @ (F, Some content) # post) initialState = Some st
           \<and> count_list (instances (componentInstancesJSX st) S) F
               = (if S \<in> importedBy (pre @ [(F, Some content)])
                  then length (jsxMatches content S) else 0)
           \<and> count_list (instances (componentInstancesFunc st) S) F
               = (if S \<in> importedBy (pre @ [(F, Some content)]) \<and> jsxMatches content S = []
                  then length (callMatches content S) else 0)
           \<and> (F \<in> set (instances (componentInstancesJSX st) S)
                \<longleftrightarrow> S \<in> importedBy (pre @ [(F, Some content)]) \<and> jsxMatches content S \<noteq> [])
           \<and> (F \<in> set (instances (componentInstancesFunc st) S)
                \<longleftrightarrow> S \<in> importedBy (pre @ [(F, Some content)]) \<and> jsxMatches content S = []
                    \<and> callMatches content S \<noteq> [])
           \<and> (\<forall>m. count_list (instances (componentInstancesJSX st) (a @ ''.'' @ m)) F
                    = (if CHR ''*'' # a \<in> importedBy (pre @ [(F, Some content)])
                       then count_list (nsJSXNames content a) (a @ ''.'' @ m) else 0)
                  \<and> count_list (instances (componentInstancesFunc st) (a @ ''.'' @ m)) F
                    = (if CHR ''*'' # a \<in> importedBy (pre @ [(F, Some content)])
                          \<and> a @ ''.'' @ m \<notin> set (nsJSXNames content a)
                       then count_list (nsCallNames content a) (a @ ''.'' @ m) else 0))"
proof -
  let ?imp = "importedBy (pre @ [(F, Some content)])"
  from walk_plain_counts [OF assms(1,3,4)] obtain st
    where w: "walkFiles (pre @ (F, Some content) # post) initialState = Some st"
      and j: "count_list (instances (componentInstancesJSX st) S) F
               = (if S \<in> ?imp then length (jsxMatches content S) else 0)"
      and c: "count_list (instances (componentInstancesFunc st) S) F
               = (if S \<in> ?imp \<and> jsxMatches content S = []
                  then length (callMatches content S) else 0)"
    by (elim exE conjE)
  have mj: "F \<in> set (instances (componentInstancesJSX st) S)
              \<longleftrightarrow> S \<in> ?imp \<and> jsxMatches content S \<noteq> []"
    unfolding count_list_pos [symmetric] j by simp
  have mc: "F \<in> set (instances (componentInstancesFunc st) S)
              \<longleftrightarrow> S \<in> ?imp \<and> jsxMatches content S = [] \<and> callMatches content S \<noteq> []"
    unfolding count_list_pos [symmetric] c by simp
  from assms(5) have sk: "\<forall>k \<in> ?imp. symbolKey k" by (simp add: ball_Un)
  have ns: "count_list (instances (componentInstancesJSX st) (a @ ''.'' @ m)) F
              = (if CHR ''*'' # a \<in> ?imp
                 then count_list (nsJSXNames content a) (a @ ''.'' @ m) else 0)
            \<and> count_list (instances (componentInstancesFunc st) (a @ ''.'' @ m)) F
              = (if CHR ''*'' # a \<in> ?imp \<and> a @ ''.'' @ m \<notin> set (nsJSXNames content a)
                 then count_list (nsCallNames content a) (a @ ''.'' @ m) else 0)" for m
  proof -
    from walk_member_counts [OF assms(2,3,4) sk, of m] obtain st'
      where w': "walkFiles (pre @ (F, Some content) # post) initialState = Some st'"
        and x: "count_list (instances (componentInstancesJSX st') (a @ ''.'' @ m)) F
              = (if CHR ''*'' # a \<in> ?imp
                 then count_list (nsJSXNames content a) (a @ ''.'' @ m) else 0)"
          "count_list (instances (componentInstancesFunc st') (a @ ''.'' @ m)) F
              = (if CHR ''*'' # a \<in> ?imp \<and> a @ ''.'' @ m \<notin> set (nsJSXNames content a)
                 then count_list (nsCallNames content a) (a @ ''.'' @ m) else 0)"
      by (elim exE conjE)
    from w w' have "st' = st" by simp
    with x show ?thesis by simp
  qed
  have nsall: "\<forall>m. count_list (instances (componentInstancesJSX st) (a @ ''.'' @ m)) F
              = (if CHR ''*'' # a \<in> ?imp
                 then count_list (nsJSXNames content a) (a @ ''.'' @ m) else 0)
            \<and> count_list (instances (componentInstancesFunc st) (a @ ''.'' @ m)) F
              = (if CHR ''*'' # a \<in> ?imp \<and> a @ ''.'' @ m \<notin> set (nsJSXNames content a)
                 then count_list (nsCallNames content a) (a @ ''.'' @ m) else 0)"
    by (intro allI ns)
  from w j c mj mc nsall show ?thesis by (intro exI [of _ st] conjI)
qed

text \<open>C10, witness: in the walk of the example, \<open>Card\<close> and \<open>NS\<close> are imported by the second
  file. Nothing is recorded for the first file; for the second, the markup-style
  occurrences of \<open>Card\<close> and of \<open>NS.Tab\<close> and the call of \<open>NS.open\<close> are recorded.\<close>

theorem C10_witness:
  "list_all isWord ''Card'' \<and> list_all isWord ''NS''
   \<and> distinct (map fst exampleWalk)
   \<and> plainNames exampleWalk
   \<and> importedBy exampleWalk = {''Card'', ''*NS''} \<and> symbolKey ''Card'' \<and> symbolKey ''*NS''
   \<and> importedBy [exampleWalk ! 0] = {}
   \<and> importedBy [exampleWalk ! 0, exampleWalk ! 1] = {''Card'', ''*NS''}
   \<and> (\<exists>st. walkFiles exampleWalk initialState = Some st
          \<and> count_list (instances (componentInstancesJSX st) ''Card'') ''u.js'' = 0
          \<and> count_list (instances (componentInstancesFunc st) ''Card'') ''u.js'' = 0
          \<and> count_list (instances (componentInstancesJSX st) ''NS.Tab'') ''u.js'' = 0
          \<and> count_list (instances (componentInstancesFunc st) ''NS.open'') ''u.js'' = 0
          \<and> count_list (instances (componentInstancesJSX st) ''Card'') ''v.js'' = 1
          \<and> count_list (instances (componentInstancesFunc st) ''Card'') ''v.js'' = 0
          \<and> count_list (instances (componentInstancesJSX st) ''NS.Tab'') ''v.js'' = 1
          \<and> count_list (instances (componentInstancesFunc st) ''NS.Tab'') ''v.js'' = 0
          \<and> count_list (instances (componentInstancesFunc st) ''NS.open'') ''v.js'' = 1)
   \<and> walkFiles exampleWalk initialState
       = Some \<lparr>componentUsage = [(''Card'', [''v.js'']), (''*NS'', [''v.js''])],
               componentInstancesJSX = [(''Card'', [''v.js'']), (''NS.Tab'', [''v.js''])],
               componentInstancesFunc = [(''NS.open'', [''v.js'', ''w.js'']), (''Card'', [''w.js''])]\<rparr>"
proof -
  let ?u = "exampleWalk ! 0"
  let ?v = "exampleWalk ! 1"
  let ?w = "exampleWalk ! 2"
  let ?cu = "''<NS.Tab/> NS.open(1) Card(0)''"
  let ?cv = "''import * as NS from \"your-package-name\"; import { Card } from \"your-package-name\"; <NS.Tab/> NS.Tab(1) NS.open(2) <Card/> Card(3)''"
  have u: "?u = (''u.js'', Some ?cu)" and v: "?v = (''v.js'', Some ?cv)"
    by (simp_all add: exampleWalk_def)
  have w1: "list_all isWord ''Card''" and w2: "list_all isWord ''NS''" by code_simp+
  have d: "distinct (map fst exampleWalk)" by code_simp
  have p: "plainNames exampleWalk" unfolding plainNames_def by code_simp
  have ib: "importedBy exampleWalk = {''Card'', ''*NS''}" by code_simp
  have sk: "symbolKey ''Card''" "symbolKey ''*NS''" by code_simp+
  have k: "\<forall>k \<in> importedBy exampleWalk. symbolKey k" using ib sk by simp
  have i0: "importedBy [?u] = {}" by code_simp
  have i1: "importedBy [?u, ?v] = {''Card'', ''*NS''}" by code_simp
  have r: "walkFiles exampleWalk initialState
       = Some \<lparr>componentUsage = [(''Card'', [''v.js'']), (''*NS'', [''v.js''])],
               componentInstancesJSX = [(''Card'', [''v.js'']), (''NS.Tab'', [''v.js''])],
               componentInstancesFunc = [(''NS.open'', [''v.js'', ''w.js'']), (''Card'', [''w.js''])]\<rparr>"
    by code_simp
  have e1: "[] @ (''u.js'', Some ?cu) # [?v, ?w] = exampleWalk"
    "[] @ [(''u.js'', Some ?cu)] = [?u]"
    by (simp_all add: exampleWalk_def)
  have e2: "[?u] @ (''v.js'', Some ?cv) # [?w] = exampleWalk"
    "[?u] @ [(''v.js'', Some ?cv)] = [?u, ?v]"
    by (simp_all add: exampleWalk_def)
  have p1: "plainNames [?u]" unfolding plainNames_def by code_simp
  have p2: "plainNames [?u, ?v]" unfolding plainNames_def by code_simp
  have jv: "jsxMatches ?cv ''Card'' = [(114, 7, None)]" by code_simp
  have nj: "nsJSXNames ?cv ''NS'' = [''NS.Tab'']" by code_simp
  have nc: "nsCallNames ?cv ''NS'' = [''NS.Tab'', ''NS.open'']" by code_simp
  note t1 = C10_walk_order [of "''Card''" "''NS''" "[]" "''u.js''" ?cu "[?v, ?w]",
      unfolded e1, OF w1 w2 d p1 k, unfolded i0]
  note t2 = C10_walk_order [of "''Card''" "''NS''" "[?u]" "''v.js''" ?cv "[?w]",
      unfolded e2, OF w1 w2 d p2 k, unfolded i1]
  from t1 obtain st1
    where s1: "walkFiles exampleWalk initialState = Some st1"
      and a1: "count_list (instances (componentInstancesJSX st1) ''Card'') ''u.js''
                = (if ''Card'' \<in> {} then length (jsxMatches ?cu ''Card'') else 0)"
      and a2: "count_list (instances (componentInstancesFunc st1) ''Card'') ''u.js''
                = (if ''Card'' \<in> {} \<and> jsxMatches ?cu ''Card'' = []
                   then length (callMatches ?cu ''Card'') else 0)"
      and a3: "\<forall>m. count_list (instances (componentInstancesJSX st1) (''NS'' @ ''.'' @ m)) ''u.js''
                    = (if CHR ''*'' # ''NS'' \<in> {}
                       then count_list (nsJSXNames ?cu ''NS'') (''NS'' @ ''.'' @ m) else 0)
                  \<and> count_list (instances (componentInstancesFunc st1) (''NS'' @ ''.'' @ m)) ''u.js''
                    = (if CHR ''*'' # ''NS'' \<in> {}
                          \<and> ''NS'' @ ''.'' @ m \<notin> set (nsJSXNames ?cu ''NS'')
                       then count_list (nsCallNames ?cu ''NS'') (''NS'' @ ''.'' @ m) else 0)"
    by (elim exE conjE)
  from t2 obtain st2
    where s2: "walkFiles exampleWalk initialState = Some st2"
      and b1: "count_list (instances (componentInstancesJSX st2) ''Card'') ''v.js''
                = (if ''Card'' \<in> {''Card'', ''*NS''} then length (jsxMatches ?cv ''Card'') else 0)"
      and b2: "count_list (instances (componentInstancesFunc st2) ''Card'') ''v.js''
                = (if ''Card'' \<in> {''Card'', ''*NS''} \<and> jsxMatches ?cv ''Card'' = []
                   then length (callMatches ?cv ''Card'') else 0)"
      and b3: "\<forall>m. count_list (instances (componentInstancesJSX st2) (''NS'' @ ''.'' @ m)) ''v.js''
                    = (if CHR ''*'' # ''NS'' \<in> {''Card'', ''*NS''}
                       then count_list (nsJSXNames ?cv ''NS'') (''NS'' @ ''.'' @ m) else 0)
                  \<and> count_list (instances (componentInstancesFunc st2) (''NS'' @ ''.'' @ m)) ''v.js''
                    = (if CHR ''*'' # ''NS'' \<in> {''Card'', ''*NS''}
                          \<and> ''NS'' @ ''.'' @ m \<notin> set (nsJSXNames ?cv ''NS'')
                       then count_list (nsCallNames ?cv ''NS'') (''NS'' @ ''.'' @ m) else 0)"
    by (elim exE conjE)
  from s1 s2 have eq: "st2 = st1" by simp
  have z1: "count_list (instances (componentInstancesJSX st1) ''Card'') ''u.js'' = 0"
    using a1 by simp
  have z2: "count_list (instances (componentInstancesFunc st1) ''Card'') ''u.js'' = 0"
    using a2 by simp
  have z3: "count_list (instances (componentInstancesJSX st1) ''NS.Tab'') ''u.js'' = 0"
    using a3 [THEN spec, of "''Tab''", THEN conjunct1] by simp
  have z4: "count_list (instances (componentInstancesFunc st1) ''NS.open'') ''u.js'' = 0"
    using a3 [THEN spec, of "''open''", THEN conjunct2] by simp
  have y1: "count_list (instances (componentInstancesJSX st1) ''Card'') ''v.js'' = 1"
    using b1 [unfolded eq jv] by simp
  have y2: "count_list (instances (componentInstancesFunc st1) ''Card'') ''v.js'' = 0"
    using b2 [unfolded eq jv] by simp
  have y3: "count_list (instances (componentInstancesJSX st1) ''NS.Tab'') ''v.js'' = 1"
    using b3 [unfolded eq nj nc, THEN spec, of "''Tab''", THEN conjunct1] by simp
  have y4: "count_list (instances (componentInstancesFunc st1) ''NS.Tab'') ''v.js'' = 0"
    using b3 [unfolded eq nj nc, THEN spec, of "''Tab''", THEN conjunct2] by simp
  have y5: "count_list (instances (componentInstancesFunc st1) ''NS.open'') ''v.js'' = 1"
    using b3 [unfolded eq nj nc, THEN spec, of "''open''", THEN conjunct2] by simp
  from s1 z1 z2 z3 z4 y1 y2 y3 y4 y5
  have "\<exists>st. walkFiles exampleWalk initialState = Some st
          \<and> count_list (instances (componentInstancesJSX st) ''Card'') ''u.js'' = 0
          \<and> count_list (instances (componentInstancesFunc st) ''Card'') ''u.js'' = 0
          \<and> count_list (instances (componentInstancesJSX st) ''NS.Tab'') ''u.js'' = 0
          \<and> count_list (instances (componentInstancesFunc st) ''NS.open'') ''u.js'' = 0
          \<and> count_list (instances (componentInstancesJSX st) ''Card'') ''v.js'' = 1
          \<and> count_list (instances (componentInstancesFunc st) ''Card'') ''v.js'' = 0
          \<and> count_list (instances (componentInstancesJSX st) ''NS.Tab'') ''v.js'' = 1
          \<and> count_list (instances (componentInstancesFunc st) ''NS.Tab'') ''v.js'' = 0
          \<and> count_list (instances (componentInstancesFunc st) ''NS.open'') ''v.js'' = 1"
    by (intro exI [of _ st1] conjI)
  with w1 w2 d p ib sk i0 i1 r show ?thesis by (intro conjI)
qed

text \<open>C10, counterexample to the claim as stated: the second file of the example imports
  \<open>Card\<close> and its text has the call-style occurrence \<open>Card(3)\<close>, a match of the call
  pattern, but no call-style entry is recorded for the file: its text also has the
  markup-style occurrence \<open><Card/>\<close>.\<close>

theorem C10_counterexample:
  "walkFiles exampleWalk initialState
     = Some \<lparr>componentUsage = [(''Card'', [''v.js'']), (''*NS'', [''v.js''])],
             componentInstancesJSX = [(''Card'', [''v.js'']), (''NS.Tab'', [''v.js''])],
             componentInstancesFunc = [(''NS.open'', [''v.js'', ''w.js'']), (''Card'', [''w.js''])]\<rparr>
   \<and> ''Card'' \<in> set (importedNames (the (snd (exampleWalk ! 1))))
   \<and> callMatches (the (snd (exampleWalk ! 1))) ''Card'' = [(122, 5, None)]
   \<and> take 5 (drop 122 (the (snd (exampleWalk ! 1)))) = ''Card(''
   \<and> ''v.js'' \<notin> set (instances [(''NS.open'', [''v.js'', ''w.js'']), (''Card'', [''w.js''])] ''Card'')"
  by code_simp

text \<open>
  C7 (as amended). After a walk, the list of unused components holds exactly the keys of
  the Symbol Table that have no recorded entry in the markup-style table and none in the
  call-style table and do not start with \<open>*\<close>; the report of the run ends with the block
  that lists them, sorted, one on a line (or says that all imported components are
  used). A namespace key is never listed. When the plain keys of the Symbol Table are
  \<open>X\<close> and \<open>Y\<close>, an entry is recorded for \<open>X\<close> and none for \<open>Y\<close>, the list is exactly \<open>Y\<close>. What
  counts is what the walk has recorded: a match of \<open>X\<close> in a file processed before the
  first file that imports \<open>X\<close> is not recorded. The names bound in the walk are made of
  word characters (after the \<open>*\<close> of a namespace key).
\<close>

theorem C7_unused_listing:
  assumes "\<forall>k \<in> importedBy files. symbolKey k"
  shows "\<exists>st. walkFiles files initialState = Some st
     \<and> unusedComponents st
         = filter (\<lambda>c. instances (componentInstancesJSX st) c = []
                       \<and> instances (componentInstancesFunc st) c = []
                       \<and> \<not> startsWith c ''*'')
                  (objectKeys (componentUsage st))
     \<and> set (unusedComponents st)
         = {c \<in> fst ` set (componentUsage st).
              instances (componentInstancesJSX st) c = []
              \<and> instances (componentInstancesFunc st) c = [] \<and> \<not> startsWith c ''*''}
     \<and> (\<forall>timestamp. \<exists>head. main files timestamp
           = Some (head @ ''COMPONENTS WITH NO USAGE FOUND'' @ nl @ rule
                   @ (if unusedComponents st = []
                      then ''All imported components are used.'' @ nl @ nl
                      else concat (map (\<lambda>c. c @ nl) (sort (unusedComponents st))) @ nl)))
     \<and> (\<forall>ns. CHR ''*'' # ns \<notin> set (unusedComponents st))
     \<and> (\<forall>X Y. X \<noteq> Y
              \<and> {c \<in> fst ` set (componentUsage st). \<not> startsWith c ''*''} = {X, Y}
              \<and> (instances (componentInstancesJSX st) X \<noteq> []
                  \<or> instances (componentInstancesFunc st) X \<noteq> [])
              \<and> instances (componentInstancesJSX st) Y = []
              \<and> instances (componentInstancesFunc st) Y = []
            \<longrightarrow> unusedComponents st = [Y])"
proof -
  from walkFiles_total obtain st where w: "walkFiles files initialState = Some st" by blast
  have "noEmptyEntry (componentInstancesJSX initialState)"
    "noEmptyEntry (componentInstancesFunc initialState)"
    by (simp_all add: noEmptyEntry_def initialState_def)
  from walkFiles_noEmptyEntry [OF w this]
  have ne: "noEmptyEntry (componentInstancesJSX st)" "noEmptyEntry (componentInstancesFunc st)"
    by simp_all
  let ?P = "\<lambda>c. instances (componentInstancesJSX st) c = []
                 \<and> instances (componentInstancesFunc st) c = [] \<and> \<not> startsWith c ''*''"
  have 1: "unusedComponents st = filter ?P (objectKeys (componentUsage st))"
    unfolding unusedComponents_def Let_def
    by (rule filter_cong) (auto simp: key_iff_instances [OF ne(1)] key_iff_instances [OF ne(2)])
  have 2: "set (unusedComponents st) = {c \<in> fst ` set (componentUsage st). ?P c}"
    unfolding 1 by (auto simp: set_objectKeys)
  let ?block = "''COMPONENTS WITH NO USAGE FOUND'' @ nl @ rule
                   @ (if unusedComponents st = []
                      then ''All imported components are used.'' @ nl @ nl
                      else concat (map (\<lambda>c. c @ nl) (sort (unusedComponents st))) @ nl)"
  have b: "unusedBlock st = ?block" by (simp add: unusedBlock_def)
  have 3: "\<exists>head. main files timestamp = Some (head @ ?block)" for timestamp
  proof -
    let ?head = "''Component Usage Report for '' @ [CHR 0x22] @ targetPackageName @ [CHR 0x22]
       @ '' package'' @ nl
     @ ''Generated on: '' @ timestamp @ nl
     @ ''=========================================='' @ nl @ nl
     @ summaryBlock st @ importedBlock st @ jsxBlock st @ funcBlock st"
    have "main files timestamp = Some (?head @ unusedBlock st)"
      using w by (simp add: main_def generateReport_def)
    then have "main files timestamp = Some (?head @ ?block)" unfolding b .
    then show ?thesis by (rule exI [of _ ?head])
  qed
  have 4: "CHR ''*'' # ns \<notin> set (unusedComponents st)" for ns
    unfolding 2 by (simp add: startsWith_def)
  have d: "distinct (unusedComponents st)"
    unfolding 1 using walkFiles_distinct [OF w] by (simp add: distinct_objectKeys)
  have 5: "unusedComponents st = [Y]"
    if "X \<noteq> Y \<and> {c \<in> fst ` set (componentUsage st). \<not> startsWith c ''*''} = {X, Y}
        \<and> (instances (componentInstancesJSX st) X \<noteq> []
            \<or> instances (componentInstancesFunc st) X \<noteq> [])
        \<and> instances (componentInstancesJSX st) Y = []
        \<and> instances (componentInstancesFunc st) Y = []" for X Y
  proof -
    from that have k: "{c \<in> fst ` set (componentUsage st). \<not> startsWith c ''*''} = {X, Y}"
      and x: "\<not> ?P X" and y: "instances (componentInstancesJSX st) Y = []"
        "instances (componentInstancesFunc st) Y = []"
      by auto
    have "{c \<in> fst ` set (componentUsage st). ?P c}
          = {c \<in> {c \<in> fst ` set (componentUsage st). \<not> startsWith c ''*''}.
               instances (componentInstancesJSX st) c = []
               \<and> instances (componentInstancesFunc st) c = []}"
      by auto
    also have "\<dots> = {Y}" unfolding k using x y k by auto
    finally have "set (unusedComponents st) = {Y}" unfolding 2 .
    from distinct_singleton [OF d this] show ?thesis .
  qed
  have a3: "\<forall>timestamp. \<exists>head. main files timestamp = Some (head @ ?block)"
    by (intro allI 3)
  have a4: "\<forall>ns. CHR ''*'' # ns \<notin> set (unusedComponents st)" by (intro allI 4)
  have a5: "\<forall>X Y. X \<noteq> Y
              \<and> {c \<in> fst ` set (componentUsage st). \<not> startsWith c ''*''} = {X, Y}
              \<and> (instances (componentInstancesJSX st) X \<noteq> []
                  \<or> instances (componentInstancesFunc st) X \<noteq> [])
              \<and> instances (componentInstancesJSX st) Y = []
              \<and> instances (componentInstancesFunc st) Y = []
            \<longrightarrow> unusedComponents st = [Y]"
    by (intro allI impI 5)
  from w 1 2 a3 a4 a5 show ?thesis by (intro exI [of _ st] conjI)
qed

text \<open>C7, witness: \<open>X\<close> and \<open>Y\<close> are imported and only \<open>X\<close> is used; the namespace key
  \<open>*NS\<close> has no recorded member and is not listed.\<close>

theorem C7_witness:
  "importedBy exampleUnused = {''X'', ''Y'', ''*NS''}
   \<and> symbolKey ''X'' \<and> symbolKey ''Y'' \<and> symbolKey ''*NS''
   \<and> walkFiles exampleUnused initialState
     = Some \<lparr>componentUsage = [(''X'', [''a.js'']), (''Y'', [''a.js'']), (''*NS'', [''a.js''])],
             componentInstancesJSX = [(''X'', [''a.js''])],
             componentInstancesFunc = []\<rparr>
   \<and> (\<exists>st. walkFiles exampleUnused initialState = Some st
          \<and> unusedComponents st = [''Y'']
          \<and> ''*NS'' \<notin> set (unusedComponents st))
   \<and> (\<exists>head. main exampleUnused ''2024-01-01T00:00:00.000Z''
          = Some (head @ ''COMPONENTS WITH NO USAGE FOUND'' @ nl @ rule @ ''Y'' @ nl @ nl))"
proof -
  let ?st = "\<lparr>componentUsage = [(''X'', [''a.js'']), (''Y'', [''a.js'']), (''*NS'', [''a.js''])],
             componentInstancesJSX = [(''X'', [''a.js''])],
             componentInstancesFunc = []\<rparr>"
  have ib: "importedBy exampleUnused = {''X'', ''Y'', ''*NS''}" by code_simp
  have sk: "symbolKey ''X''" "symbolKey ''Y''" "symbolKey ''*NS''" by code_simp+
  have k: "\<forall>k \<in> importedBy exampleUnused. symbolKey k" using ib sk by simp
  have r: "walkFiles exampleUnused initialState = Some ?st" by code_simp
  from C7_unused_listing [OF k] obtain st
    where s: "walkFiles exampleUnused initialState = Some st"
      and m: "\<forall>timestamp. \<exists>head. main exampleUnused timestamp
           = Some (head @ ''COMPONENTS WITH NO USAGE FOUND'' @ nl @ rule
                   @ (if unusedComponents st = []
                      then ''All imported components are used.'' @ nl @ nl
                      else concat (map (\<lambda>c. c @ nl) (sort (unusedComponents st))) @ nl))"
      and n: "\<forall>ns. CHR ''*'' # ns \<notin> set (unusedComponents st)"
      and x: "\<forall>X Y. X \<noteq> Y
              \<and> {c \<in> fst ` set (componentUsage st). \<not> startsWith c ''*''} = {X, Y}
              \<and> (instances (componentInstancesJSX st) X \<noteq> []
                  \<or> instances (componentInstancesFunc st) X \<noteq> [])
              \<and> instances (componentInstancesJSX st) Y = []
              \<and> instances (componentInstancesFunc st) Y = []
            \<longrightarrow> unusedComponents st = [Y]"
    by (elim exE conjE)
  from s r have st: "st = ?st" by simp
  have h1: "''X'' \<noteq> ''Y''" by simp
  have h2: "{c \<in> fst ` set (componentUsage ?st). \<not> startsWith c ''*''} = {''X'', ''Y''}"
    by (auto simp: startsWith_def)
  have h3: "instances (componentInstancesJSX ?st) ''X'' \<noteq> []
            \<or> instances (componentInstancesFunc ?st) ''X'' \<noteq> []" by code_simp
  have h4: "instances (componentInstancesJSX ?st) ''Y'' = []" by code_simp
  have h5: "instances (componentInstancesFunc ?st) ''Y'' = []" by code_simp
  from x [unfolded st, THEN spec, of "''X''", THEN spec, of "''Y''"] h1 h2 h3 h4 h5
  have u: "unusedComponents ?st = [''Y'']" by (simp only: simp_thms)
  from n [unfolded st, THEN spec, of "''NS''"]
  have ns: "''*NS'' \<notin> set (unusedComponents ?st)" by simp
  from m [unfolded st u, THEN spec, of "''2024-01-01T00:00:00.000Z''"]
  have b: "\<exists>head. main exampleUnused ''2024-01-01T00:00:00.000Z''
          = Some (head @ ''COMPONENTS WITH NO USAGE FOUND'' @ nl @ rule @ ''Y'' @ nl @ nl)"
    by simp
  from r u ns
  have e: "\<exists>st. walkFiles exampleUnused initialState = Some st
          \<and> unusedComponents st = [''Y'']
          \<and> ''*NS'' \<notin> set (unusedComponents st)"
    by (intro exI [of _ ?st] conjI)
  from ib sk r e b show ?thesis by (intro conjI)
qed

text \<open>C7, counterexample to the claim as stated: \<open>X\<close> and \<open>Y\<close> are imported by the second
  file of the walk, and only \<open>X\<close> appears in a markup pattern, in the first file; that file
  is processed before the import, the match is not recorded, and the block of the report
  lists \<open>X\<close> and \<open>Y\<close>.\<close>

theorem C7_counterexample:
  "jsxMatches ''<X/>'' ''X'' = [(0, 4, None)]
   \<and> jsxMatches ''<X/>'' ''Y'' = []
   \<and> walkFiles exampleUsedBeforeImport initialState
     = Some \<lparr>componentUsage = [(''X'', [''b.js'']), (''Y'', [''b.js''])],
             componentInstancesJSX = [], componentInstancesFunc = []\<rparr>
   \<and> unusedComponents \<lparr>componentUsage = [(''X'', [''b.js'']), (''Y'', [''b.js''])],
             componentInstancesJSX = [], componentInstancesFunc = []\<rparr> = [''X'', ''Y'']
   \<and> main exampleUsedBeforeImport ''2024-01-01T00:00:00.000Z''
     = Some (''Component Usage Report for \"your-package-name\" package'' @ nl
             @ ''Generated on: 2024-01-01T00:00:00.000Z'' @ nl
             @ ''=========================================='' @ nl
             @ [] @ nl
             @ ''SUMMARY'' @ nl
             @ ''------------------------------------------'' @ nl
             @ ''Total imported components: 2'' @ nl
             @ ''Total component instances: 0'' @ nl
             @ ''  - JSX usage (<Component/>): 0'' @ nl
             @ ''  - Function calls (Component()): 0'' @ nl
             @ [] @ nl
             @ ''IMPORTED COMPONENTS'' @ nl
             @ ''------------------------------------------'' @ nl
             @ ''X:'' @ nl
             @ ''  Imported in 1 file(s):'' @ nl
             @ ''    - b.js'' @ nl
             @ [] @ nl
             @ ''Y:'' @ nl
             @ ''  Imported in 1 file(s):'' @ nl
             @ ''    - b.js'' @ nl
             @ [] @ nl
             @ ''JSX COMPONENT USAGE (<Component />)'' @ nl
             @ ''------------------------------------------'' @ nl
             @ ''No JSX usage found.'' @ nl
             @ [] @ nl
             @ ''FUNCTION CALL USAGE (Component())'' @ nl
             @ ''------------------------------------------'' @ nl
             @ ''No function call usage found.'' @ nl
             @ [] @ nl
             @ ''COMPONENTS WITH NO USAGE FOUND'' @ nl
             @ ''------------------------------------------'' @ nl
             @ ''X'' @ nl
             @ ''Y'' @ nl
             @ [] @ nl)"
  by code_simp

text \<open>
  C8. The report of a run is a fixed first line, the line of the timestamp and a rest that
  the files of the walk determine: two runs on the same files, in the same order, give
  reports that differ in the timestamp only. The names bound in the walk are symbols
  that the model covers.
\<close>

theorem C8_report_but_for_timestamp:
  assumes "\<forall>k \<in> importedBy files. symbolKey k"
  shows "(\<exists>rest. \<forall>timestamp.
      main files timestamp
      = Some (''Component Usage Report for \"your-package-name\" package'' @ nl
              @ ''Generated on: '' @ timestamp @ nl @ rest))
   \<and> (\<forall>t1 t2. \<exists>head rest. main files t1 = Some (head @ t1 @ nl @ rest)
                           \<and> main files t2 = Some (head @ t2 @ nl @ rest))"
proof -
  from walkFiles_total obtain st where w: "walkFiles files initialState = Some st" by blast
  let ?head = "''Component Usage Report for \"your-package-name\" package'' @ nl @ ''Generated on: ''"
  let ?rest = "''=========================================='' @ nl @ nl
     @ summaryBlock st @ importedBlock st @ jsxBlock st @ funcBlock st @ unusedBlock st"
  have m: "main files timestamp = Some (?head @ timestamp @ nl @ ?rest)" for timestamp
    using w by (simp add: main_def generateReport_def targetPackageName_def)
  have 1: "\<exists>rest. \<forall>timestamp.
      main files timestamp
      = Some (''Component Usage Report for \"your-package-name\" package'' @ nl
              @ ''Generated on: '' @ timestamp @ nl @ rest)"
    using m by (intro exI [of _ ?rest]) simp
  have 2: "\<exists>head rest. main files t1 = Some (head @ t1 @ nl @ rest)
                           \<and> main files t2 = Some (head @ t2 @ nl @ rest)" for t1 t2
    using m [of t1] m [of t2] by (intro exI [of _ ?head] exI [of _ ?rest] conjI)
  from 1 2 show ?thesis by blast
qed

text \<open>C8, witness: a walk of two files and its report, line by line, at two
  timestamps.\<close>

theorem C8_witness:
  "importedBy exampleBoth = {''Button''} \<and> symbolKey ''Button''
   \<and> (\<exists>rest.
        main exampleBoth ''2024-01-01T00:00:00.000Z''
        = Some (''Component Usage Report for \"your-package-name\" package'' @ nl
                @ ''Generated on: '' @ ''2024-01-01T00:00:00.000Z'' @ nl @ rest)
        \<and> main exampleBoth ''2025-06-30T12:00:00.000Z''
          = Some (''Component Usage Report for \"your-package-name\" package'' @ nl
                  @ ''Generated on: '' @ ''2025-06-30T12:00:00.000Z'' @ nl @ rest))
   \<and> main exampleBoth ''2024-01-01T00:00:00.000Z''
     = Some (concat (map (\<lambda>line. line @ nl) [
      ''Component Usage Report for \"your-package-name\" package'',
      ''Generated on: 2024-01-01T00:00:00.000Z'',
      ''=========================================='',
      '''',
      ''SUMMARY'',
      ''------------------------------------------'',
      ''Total imported components: 1'',
      ''Total component instances: 2'',
      ''  - JSX usage (<Component/>): 1'',
      ''  - Function calls (Component()): 1'',
      '''',
      ''IMPORTED COMPONENTS'',
      ''------------------------------------------'',
      ''Button:'',
      ''  Imported in 1 file(s):'',
      ''    - a.js'',
      '''',
      ''JSX COMPONENT USAGE (<Component />)'',
      ''------------------------------------------'',
      ''Button:'',
      ''  Used as JSX 1 time(s) in:'',
      ''    - a.js (1 instance(s))'',
      '''',
      ''FUNCTION CALL USAGE (Component())'',
      ''------------------------------------------'',
      ''Button:'',
      ''  Called as function 1 time(s) in:'',
      ''    - b.js (1 instance(s))'',
      '''',
      ''COMPONENTS WITH NO USAGE FOUND'',
      ''------------------------------------------'',
      ''All imported components are used.'',
      '''']))"
proof -
  have ib: "importedBy exampleBoth = {''Button''}" by code_simp
  have sk: "symbolKey ''Button''" by code_simp
  have k: "\<forall>k \<in> importedBy exampleBoth. symbolKey k" using ib sk by simp
  from C8_report_but_for_timestamp [OF k, THEN conjunct1] obtain rest where x:
    "\<forall>timestamp. main exampleBoth timestamp
      = Some (''Component Usage Report for \"your-package-name\" package'' @ nl
              @ ''Generated on: '' @ timestamp @ nl @ rest)"
    by (rule exE)
  from x [THEN spec, of "''2024-01-01T00:00:00.000Z''"] x [THEN spec, of "''2025-06-30T12:00:00.000Z''"]
  have e: "\<exists>rest.
        main exampleBoth ''2024-01-01T00:00:00.000Z''
        = Some (''Component Usage Report for \"your-package-name\" package'' @ nl
                @ ''Generated on: '' @ ''2024-01-01T00:00:00.000Z'' @ nl @ rest)
        \<and> main exampleBoth ''2025-06-30T12:00:00.000Z''
          = Some (''Component Usage Report for \"your-package-name\" package'' @ nl
                  @ ''Generated on: '' @ ''2025-06-30T12:00:00.000Z'' @ nl @ rest)"
    by (intro exI [of _ rest] conjI)
  have r: "main exampleBoth ''2024-01-01T00:00:00.000Z''
     = Some (concat (map (\<lambda>line. line @ nl) [
      ''Component Usage Report for \"your-package-name\" package'',
      ''Generated on: 2024-01-01T00:00:00.000Z'',
      ''=========================================='',
      '''',
      ''SUMMARY'',
      ''------------------------------------------'',
      ''Total imported components: 1'',
      ''Total component instances: 2'',
      ''  - JSX usage (<Component/>): 1'',
      ''  - Function calls (Component()): 1'',
      '''',
      ''IMPORTED COMPONENTS'',
      ''------------------------------------------'',
      ''Button:'',
      ''  Imported in 1 file(s):'',
      ''    - a.js'',
      '''',
      ''JSX COMPONENT USAGE (<Component />)'',
      ''------------------------------------------'',
      ''Button:'',
      ''  Used as JSX 1 time(s) in:'',
      ''    - a.js (1 instance(s))'',
      '''',
      ''FUNCTION CALL USAGE (Component())'',
      ''------------------------------------------'',
      ''Button:'',
      ''  Called as function 1 time(s) in:'',
      ''    - b.js (1 instance(s))'',
      '''',
      ''COMPONENTS WITH NO USAGE FOUND'',
      ''------------------------------------------'',
      ''All imported components are used.'',
      '''']))"
    by code_simp
  from ib sk e r show ?thesis by (intro conjI)
qed



end
